theory Spec2Isabelle
  imports Complex_Main "HOL-Library.Signed_Division" "HOL-Library.Stream"
begin

section \<open>CALC / keisan: the game state, the progression tracker and the step sequencer\<close>

text \<open>
  A shallow embedding of \<^verbatim>\<open>assets/js/app.js\<close>. The script keeps one mutable object
  \<^verbatim>\<open>state\<close>, the closure variables of \<^verbatim>\<open>createDrumEngine\<close> and the browser's table of
  pending timeouts; here they are the fields of one record that every operation takes
  and returns. What an operation does to the outside (voices, cues, DOM writes, calls
  that request a pulse) is returned beside the new state as a list of events, in the
  order the script performs them.

  Numbers: every counter of the script holds an integer (it is only ever assigned
  integer literals, incremented, decremented or reduced by \<^verbatim>\<open>%\<close>), so counters are
  \<^typ>\<open>int\<close>; JavaScript's \<^verbatim>\<open>%\<close> truncates towards zero and is \<open>smod\<close>; audio times are
  \<^typ>\<open>real\<close>. \<^verbatim>\<open>Math.random()\<close> is a stream of reals that the caller supplies.
\<close>

subsection \<open>Configuration\<close>

definition unlockHihatAt :: int where "unlockHihatAt = 10"
definition unlockSnareAt :: int where "unlockSnareAt = 20"
definition stepsPerBar :: int where "stepsPerBar = 16"
definition barsCycle :: int where "barsCycle = 64"
definition bgmStageMax :: int where "bgmStageMax = 3"
definition bgmSwitchEveryCorrect :: int where "bgmSwitchEveryCorrect = 5"
definition stageClearEveryCorrect :: int where "stageClearEveryCorrect = 20"
definition muteOnWrongSteps :: int where "muteOnWrongSteps = 4"

datatype mode = Add | Sub | Mul | Div | Mix

record difficulty =
  diff_min :: int
  diff_max :: int
  diff_mode :: mode
  allowNegative :: bool

definition difficultyForStage :: "int \<Rightarrow> difficulty" where
  "difficultyForStage stage =
     (if stage \<le> 0 then \<lparr>diff_min = 1, diff_max = 20, diff_mode = Sub, allowNegative = False\<rparr>
      else if stage = 1 then \<lparr>diff_min = 1, diff_max = 30, diff_mode = Mix, allowNegative = False\<rparr>
      else if stage = 2 then \<lparr>diff_min = 2, diff_max = 30, diff_mode = Mix, allowNegative = False\<rparr>
      else \<lparr>diff_min = 2, diff_max = 40 + (stage - 3) * 10, diff_mode = Mix,
             allowNegative = False\<rparr>)"

subsection \<open>State\<close>

text \<open>
  The first eleven fields are the \<^verbatim>\<open>state\<close> object. \<open>running\<close>, \<open>timerId\<close>, \<open>uiPulseTimer\<close>
  and \<open>uiPulseHits\<close> (kick flag, snare flag) are closure variables of the drum engine.
  \<open>pulseTimeouts\<close> is the browser's side of \<^verbatim>\<open>window.setTimeout\<close> for pulse callbacks:
  the handle and delay of every callback that is set and has neither run nor been
  cleared; \<open>nextHandle\<close> is the next handle the browser hands out.
\<close>

record state =
  currentAnswer :: int
  correctTotal :: int
  stageCorrect :: int
  difficultyStage :: int
  drumLevel :: int
  bgmStage :: int
  muteSteps :: int
  step :: int
  barCounter :: int
  soundEnabled :: bool
  diff :: difficulty
  running :: bool
  timerId :: "nat option"
  uiPulseTimer :: "nat option"
  uiPulseHits :: "bool \<times> bool"
  pulseTimeouts :: "(nat \<times> real) list"
  nextHandle :: nat

definition initialState :: state where
  "initialState =
     \<lparr>currentAnswer = 0, correctTotal = 0, stageCorrect = 0, difficultyStage = 0,
      drumLevel = 0, bgmStage = 0, muteSteps = 0, step = 0, barCounter = 0,
      soundEnabled = False, diff = difficultyForStage 0,
      running = False, timerId = None, uiPulseTimer = None, uiPulseHits = (False, False),
      pulseTimeouts = [], nextHandle = 1\<rparr>"

subsection \<open>Events\<close>

datatype sound = correctSound | wrongSound | bgmSwitchSound | stageClearSound

datatype operator = Plus | Minus | Times | Divide

record problem =
  prob_a :: int
  prob_b :: int
  prob_op :: operator
  prob_answer :: int

text \<open>
  \<open>SfxCue\<close> records a call of \<^verbatim>\<open>safePlaySfx\<close> (the cue is requested); \<open>SafePlay\<close> that the
  audio element is really played. \<open>QueueUiPulse\<close> records a call of \<^verbatim>\<open>queueUiPulse\<close> with
  its time and hit flags, \<open>UiPulse\<close> the class retrigger of the pulse callback.
\<close>

datatype event =
    PlayKick real
  | PlayHihat real
  | PlaySnare real
  | QueueUiPulse real bool bool
  | UiPulse bool bool
  | SfxCue sound
  | SafePlay sound
  | FocusAnswer bool
  | RenderStats
  | RenderSoundToggle
  | RenderProblem problem
  | ShowRetryText
  | RetriggerClasses "string list"
  | RemovePulseClasses
  | DrumToggleText string
  | SetTimeoutNewProblem

subsection \<open>Utilities\<close>

text \<open>\<^verbatim>\<open>Math.floor(Math.random() * (max - min + 1)) + min\<close>, drawing the head of the stream.\<close>

definition randInt :: "int \<Rightarrow> int \<Rightarrow> real stream \<Rightarrow> int \<times> real stream" where
  "randInt lo hi rs = (\<lfloor>shd rs * of_int (hi - lo + 1)\<rfloor> + lo, stl rs)"

text \<open>
  Answers are JavaScript strings: lists of UTF-16 code units. \<^verbatim>\<open>String.prototype.trim\<close>
  strips white space and line terminators from both ends.
\<close>

type_synonym jsstring = "nat list"

definition isWhiteSpace :: "nat \<Rightarrow> bool" where
  "isWhiteSpace c \<longleftrightarrow>
     c \<in> {0x09, 0x0A, 0x0B, 0x0C, 0x0D, 0x20, 0xA0, 0x1680, 0x2028, 0x2029, 0x202F, 0x205F,
          0x3000, 0xFEFF} \<or> (0x2000 \<le> c \<and> c \<le> 0x200A)"

definition trim :: "jsstring \<Rightarrow> jsstring" where
  "trim s = rev (dropWhile isWhiteSpace (rev (dropWhile isWhiteSpace s)))"

definition isDigit :: "nat \<Rightarrow> bool" where
  "isDigit c \<longleftrightarrow> 0x30 \<le> c \<and> c \<le> 0x39"

text \<open>The matcher of \<^verbatim>\<open>/^-?\d+$/\<close>: an optional \<^verbatim>\<open>-\<close> (0x2D), then digits up to the end.\<close>

fun digits1 :: "jsstring \<Rightarrow> bool" where
  "digits1 [] = False"
| "digits1 [c] = isDigit c"
| "digits1 (c # cs) = (isDigit c \<and> digits1 cs)"

fun regexTest :: "jsstring \<Rightarrow> bool" where
  "regexTest [] = False"
| "regexTest (c # cs) = (if c = 0x2D then digits1 cs else digits1 (c # cs))"

text \<open>\<^verbatim>\<open>Number(s)\<close> on a string the pattern accepts: its decimal value.\<close>

definition decimalValue :: "jsstring \<Rightarrow> int" where
  "decimalValue ds = foldl (\<lambda>acc c. acc * 10 + (int c - 0x30)) 0 ds"

definition toNumber :: "jsstring \<Rightarrow> int" where
  "toNumber s = (case s of [] \<Rightarrow> 0 | c # cs \<Rightarrow> if c = 0x2D then - decimalValue cs else decimalValue s)"

datatype parsed = Null | NaN | Num int

definition parseAnswer :: "jsstring \<Rightarrow> parsed" where
  "parseAnswer raw =
     (let s = trim raw in
      if s = [] then Null
      else if \<not> regexTest s then NaN
      else Num (toNumber s))"

text \<open>\<^verbatim>\<open>modes[i]\<close>: \<^verbatim>\<open>undefined\<close> (\<open>None\<close>) outside the array.\<close>

definition arrayGet :: "'a list \<Rightarrow> int \<Rightarrow> 'a option" where
  "arrayGet xs i = (if 0 \<le> i \<and> i < int (length xs) then Some (xs ! nat i) else None)"

definition pickMode :: "real stream \<Rightarrow> state \<Rightarrow> mode option \<times> real stream" where
  "pickMode rs s =
     (if diff_mode (diff s) \<noteq> Mix then (Some (diff_mode (diff s)), rs)
      else
        let st = difficultyStage s;
            modes = (if st \<le> 0 then [Sub]
                     else if st = 1 then [Add, Sub]
                     else if st = 2 then [Add, Sub, Mul]
                     else [Add, Sub, Mul, Div]);
            (i, rs') = randInt 0 (int (length modes) - 1) rs
        in (arrayGet modes i, rs'))"

definition buildProblem :: "real stream \<Rightarrow> state \<Rightarrow> problem \<times> real stream" where
  "buildProblem rs0 s =
     (let (m, rs1) = pickMode rs0 s;
          (a, rs2) = randInt (diff_min (diff s)) (diff_max (diff s)) rs1;
          (b, rs3) = randInt (diff_min (diff s)) (diff_max (diff s)) rs2
      in
        if m = Some Add then (\<lparr>prob_a = a, prob_b = b, prob_op = Plus, prob_answer = a + b\<rparr>, rs3)
        else if m = Some Sub then
          (if \<not> allowNegative (diff s) \<and> a < b
           then (\<lparr>prob_a = b, prob_b = a, prob_op = Minus, prob_answer = b - a\<rparr>, rs3)
           else (\<lparr>prob_a = a, prob_b = b, prob_op = Minus, prob_answer = a - b\<rparr>, rs3))
        else if m = Some Mul then
          (\<lparr>prob_a = a, prob_b = b, prob_op = Times, prob_answer = a * b\<rparr>, rs3)
        else if m = Some Div then
          (let (k, rs4) = randInt (diff_min (diff s)) (diff_max (diff s)) rs3;
               (b', rs5) = randInt (diff_min (diff s)) (diff_max (diff s)) rs4
           in (\<lparr>prob_a = b' * k, prob_b = b', prob_op = Divide, prob_answer = k\<rparr>, rs5))
        else (\<lparr>prob_a = a, prob_b = b, prob_op = Plus, prob_answer = a + b\<rparr>, rs3))"

definition computeDrumLevel :: "int \<Rightarrow> int" where
  "computeDrumLevel sc =
     (if sc \<ge> unlockSnareAt then 2 else if sc \<ge> unlockHihatAt then 1 else 0)"

definition computeBgmStage :: "int \<Rightarrow> int" where
  "computeBgmStage sc =
     (let stage = \<lfloor>(of_int sc :: real) / of_int bgmSwitchEveryCorrect\<rfloor>
      in min stage bgmStageMax)"

subsection \<open>Audio helpers\<close>

definition safePlaySfx :: "sound \<Rightarrow> state \<Rightarrow> event list" where
  "safePlaySfx audioEl s = SfxCue audioEl # (if soundEnabled s then [SafePlay audioEl] else [])"

definition playCorrectFx :: "state \<Rightarrow> event list" where
  "playCorrectFx s = RetriggerClasses [''flash-ok'', ''scan''] # safePlaySfx correctSound s"

definition playWrongFx :: "state \<Rightarrow> state \<times> event list" where
  "playWrongFx s =
     (let evs = [ShowRetryText, RetriggerClasses [''flash-ng'', ''shake'', ''show-retry'']]
                 @ safePlaySfx wrongSound s
      in if soundEnabled s \<and> running s then (s\<lparr>muteSteps := muteOnWrongSteps\<rparr>, evs)
         else (s, evs))"

definition playBgmSwitchSe :: "state \<Rightarrow> event list" where
  "playBgmSwitchSe s = safePlaySfx bgmSwitchSound s"

definition playStageClearSe :: "state \<Rightarrow> event list" where
  "playStageClearSe s = safePlaySfx stageClearSound s"

subsection \<open>Drum engine\<close>

text \<open>
  \<^verbatim>\<open>queueUiPulse(time, hits)\<close>; \<open>now\<close> is the value of \<^verbatim>\<open>ctx.currentTime\<close> that the call
  reads. A new timeout gets the browser's next handle and joins the pending ones.
\<close>

definition queueUiPulse :: "real \<Rightarrow> real \<Rightarrow> bool \<times> bool \<Rightarrow> state \<Rightarrow> state \<times> event list" where
  "queueUiPulse now time hits s =
     (let s1 = s\<lparr>uiPulseHits := (fst (uiPulseHits s) \<or> fst hits, snd (uiPulseHits s) \<or> snd hits)\<rparr>;
          evs = [QueueUiPulse time (fst hits) (snd hits)]
      in if uiPulseTimer s1 \<noteq> None then (s1, evs)
         else
           let delayMs = max 0 ((time - now) * 1000);
               h = nextHandle s1
           in (s1\<lparr>uiPulseTimer := Some h,
                   pulseTimeouts := pulseTimeouts s1 @ [(h, delayMs)],
                   nextHandle := h + 1\<rparr>, evs))"

text \<open>
  The callback that \<^verbatim>\<open>queueUiPulse\<close> hands to \<^verbatim>\<open>setTimeout\<close>, run by the browser for
  the pending timeout with handle \<open>h\<close> (nothing runs for a handle that is not pending).
\<close>

definition pulseCallback :: "state \<Rightarrow> state \<times> event list" where
  "pulseCallback s =
     (let s1 = s\<lparr>uiPulseTimer := None\<rparr> in
      if \<not> running s1 then (s1\<lparr>uiPulseHits := (False, False)\<rparr>, [])
      else (s1\<lparr>uiPulseHits := (False, False)\<rparr>,
            [UiPulse (fst (uiPulseHits s1)) (snd (uiPulseHits s1))]))"

definition firePulseTimeout :: "nat \<Rightarrow> state \<Rightarrow> state \<times> event list" where
  "firePulseTimeout h s =
     (if h \<in> fst ` set (pulseTimeouts s)
      then pulseCallback (s\<lparr>pulseTimeouts := filter (\<lambda>p. fst p \<noteq> h) (pulseTimeouts s)\<rparr>)
      else (s, []))"

text \<open>
  The block that ends both branches of \<^verbatim>\<open>scheduleStep\<close>:
  \<^verbatim>\<open>state.step += 1; if (state.step >= stepsPerBar) { state.step = 0; state.barCounter = (state.barCounter + 1) % barsCycle; }\<close>
\<close>

definition advanceStep :: "state \<Rightarrow> state" where
  "advanceStep s =
     (let s1 = s\<lparr>step := step s + 1\<rparr> in
      if step s1 \<ge> stepsPerBar
      then s1\<lparr>step := 0, barCounter := (barCounter s1 + 1) smod barsCycle\<rparr>
      else s1)"

definition kickHit :: "state \<Rightarrow> bool" where
  "kickHit s \<longleftrightarrow>
     step s smod 4 = 0 \<or>
     (bgmStage s \<ge> 1 \<and> (step s = 10 \<or> step s = 14)) \<or>
     (bgmStage s \<ge> 2 \<and> step s = 7) \<or>
     (bgmStage s \<ge> 3 \<and> (step s = 3 \<or> step s = 11))"

definition hatHit :: "state \<Rightarrow> bool" where
  "hatHit s \<longleftrightarrow> drumLevel s \<ge> 1 \<and> (if bgmStage s \<ge> 3 then True else step s smod 2 = 0)"

definition snareHit :: "state \<Rightarrow> bool" where
  "snareHit s \<longleftrightarrow>
     drumLevel s \<ge> 2 \<and>
     ((step s = 4 \<or> step s = 12) \<or>
      (bgmStage s \<ge> 3 \<and> step s = 15 \<and> barCounter s smod 4 = 3))"

definition scheduleStep :: "real \<Rightarrow> real \<Rightarrow> state \<Rightarrow> state \<times> event list" where
  "scheduleStep now time s =
     (if muteSteps s > 0 then (advanceStep (s\<lparr>muteSteps := muteSteps s - 1\<rparr>), [])
      else
        let voices = (if kickHit s then [PlayKick time] else [])
                     @ (if hatHit s then [PlayHihat time] else [])
                     @ (if snareHit s then [PlaySnare time] else []);
            (s1, evs) = (if kickHit s \<or> snareHit s
                         then queueUiPulse now time (kickHit s, snareHit s) s
                         else (s, []))
        in (advanceStep s1, voices @ evs))"

text \<open>\<^verbatim>\<open>start\<close> after its \<^verbatim>\<open>await ctx.resume()\<close>, and \<^verbatim>\<open>stop\<close>.\<close>

definition start :: "state \<Rightarrow> state \<times> event list" where
  "start s =
     (if running s then (s, [])
      else (s\<lparr>running := True, timerId := Some (nextHandle s), nextHandle := nextHandle s + 1\<rparr>,
            [DrumToggleText ''BGM OFF'']))"

definition stop :: "state \<Rightarrow> state \<times> event list" where
  "stop s =
     (let s1 = s\<lparr>timerId := None, running := False\<rparr>;
          s2 = (case uiPulseTimer s1 of
                  None \<Rightarrow> s1
                | Some h \<Rightarrow> s1\<lparr>pulseTimeouts := filter (\<lambda>p. fst p \<noteq> h) (pulseTimeouts s1)\<rparr>)
      in (s2\<lparr>uiPulseTimer := None, uiPulseHits := (False, False)\<rparr>, [DrumToggleText ''BGM ON'']))"

definition resetTransport :: "state \<Rightarrow> state" where
  "resetTransport s = s\<lparr>step := 0, barCounter := 0\<rparr>"

subsection \<open>Game logic\<close>

definition setBgmStageFromStageCorrect :: "state \<Rightarrow> state \<times> event list" where
  "setBgmStageFromStageCorrect s =
     (let next = computeBgmStage (stageCorrect s) in
      if next = bgmStage s then (s, [])
      else
        let s1 = s\<lparr>bgmStage := next\<rparr>
        in (resetTransport s1, playBgmSwitchSe s1))"

definition stageClear :: "state \<Rightarrow> state \<times> event list" where
  "stageClear s =
     (let s1 = s\<lparr>difficultyStage := difficultyStage s + 1\<rparr>;
          s2 = s1\<lparr>diff := difficultyForStage (difficultyStage s1)\<rparr>;
          s3 = resetTransport (s2\<lparr>stageCorrect := 0, drumLevel := 0, bgmStage := 0\<rparr>)
      in (s3, playStageClearSe s3))"

definition updateOnCorrect :: "state \<Rightarrow> state \<times> event list" where
  "updateOnCorrect s =
     (let s1 = s\<lparr>correctTotal := correctTotal s + 1\<rparr>;
          s2 = s1\<lparr>stageCorrect := stageCorrect s1 + 1\<rparr>;
          s3 = s2\<lparr>drumLevel := computeDrumLevel (stageCorrect s2)\<rparr>;
          (s4, evs4) = setBgmStageFromStageCorrect s3;
          (s5, evs5) = (if correctTotal s4 smod stageClearEveryCorrect = 0
                        then stageClear s4 else (s4, []))
      in (s5, evs4 @ evs5 @ [RenderStats]))"

definition resetProgression :: "state \<Rightarrow> state \<times> event list" where
  "resetProgression s =
     (let s1 = s\<lparr>correctTotal := 0, stageCorrect := 0, difficultyStage := 0,
                   diff := difficultyForStage 0\<rparr>;
          s2 = resetTransport (s1\<lparr>drumLevel := 0, bgmStage := 0\<rparr>)
      in (s2, [RemovePulseClasses, RenderStats]))"

definition newProblem :: "real stream \<Rightarrow> state \<Rightarrow> state \<times> event list" where
  "newProblem rs s =
     (let p = fst (buildProblem rs s)
      in (s\<lparr>currentAnswer := prob_answer p\<rparr>, [RenderProblem p, FocusAnswer False]))"

text \<open>\<^verbatim>\<open>checkAnswer\<close>, with the text of the answer field as its argument.\<close>

definition checkAnswer :: "jsstring \<Rightarrow> state \<Rightarrow> state \<times> event list" where
  "checkAnswer raw s =
     (case parseAnswer raw of
        Null \<Rightarrow> (s, [FocusAnswer True])
      | NaN \<Rightarrow> (s, [FocusAnswer True])
      | Num v \<Rightarrow>
          if v = currentAnswer s then
            (let (s1, evs1) = updateOnCorrect s
             in (s1, evs1 @ playCorrectFx s1 @ [SetTimeoutNewProblem]))
          else
            (let (s1, evs1) = resetProgression s;
                 (s2, evs2) = playWrongFx s1
             in (s2, evs1 @ evs2 @ [FocusAnswer True])))"

definition resetAll :: "real stream \<Rightarrow> state \<Rightarrow> state \<times> event list" where
  "resetAll rs s =
     (let (s1, evs1) = resetProgression s;
          (s2, evs2) = newProblem rs s1
      in (s2, evs1 @ evs2))"

definition toggleSound :: "state \<Rightarrow> state \<times> event list" where
  "toggleSound s =
     (let s1 = s\<lparr>soundEnabled := \<not> soundEnabled s\<rparr>
      in (s1, RenderSoundToggle # (if soundEnabled s1 then [SafePlay bgmSwitchSound] else [])))"

definition toggleDrum :: "state \<Rightarrow> state \<times> event list" where
  "toggleDrum s = (if \<not> running s then start s else stop s)"

text \<open>The last lines of the script: the two levels are recomputed, then the first problem.\<close>

definition initApp :: "real stream \<Rightarrow> state \<times> event list" where
  "initApp rs =
     (let s1 = initialState\<lparr>drumLevel := computeDrumLevel (stageCorrect initialState)\<rparr>;
          s2 = s1\<lparr>bgmStage := computeBgmStage (stageCorrect s1)\<rparr>;
          (s3, evs) = newProblem rs s2
      in (s3, [RenderStats, RenderSoundToggle] @ evs))"

text \<open>
  The states the page can be in: the script's initialisation, then any interleaving of
  its event handlers and timer callbacks. The lookahead tick runs only between
  \<^verbatim>\<open>start\<close> and \<^verbatim>\<open>stop\<close>; each of its iterations is one call of \<^verbatim>\<open>scheduleStep\<close>, taken
  here with any clock value and any time, so the tick's own cursor \<^verbatim>\<open>nextTime\<close> is not
  part of the state.
\<close>

inductive reachable :: "state \<Rightarrow> bool" where
  init: "reachable (fst (initApp rs))"
| check: "reachable s \<Longrightarrow> reachable (fst (checkAnswer raw s))"
| next_problem: "reachable s \<Longrightarrow> reachable (fst (newProblem rs s))"
| reset: "reachable s \<Longrightarrow> reachable (fst (resetAll rs s))"
| sound: "reachable s \<Longrightarrow> reachable (fst (toggleSound s))"
| drum: "reachable s \<Longrightarrow> reachable (fst (toggleDrum s))"
| tick: "reachable s \<Longrightarrow> running s \<Longrightarrow> reachable (fst (scheduleStep now time s))"
| pulse: "reachable s \<Longrightarrow> reachable (fst (firePulseTimeout h s))"

subsection \<open>Vocabulary of the properties\<close>

text \<open>The state after \<open>n\<close> correct answers in a row.\<close>

definition afterCorrect :: "nat \<Rightarrow> state \<Rightarrow> state" where
  "afterCorrect n s = ((\<lambda>s. fst (updateOnCorrect s)) ^^ n) s"

text \<open>Consecutive calls of \<^verbatim>\<open>scheduleStep\<close>, each with the clock value it reads and its time.\<close>

fun scheduleSteps :: "(real \<times> real) list \<Rightarrow> state \<Rightarrow> state \<times> event list" where
  "scheduleSteps [] s = (s, [])"
| "scheduleSteps (nt # nts) s =
     (let (s1, evs1) = scheduleStep (fst nt) (snd nt) s;
          (s2, evs2) = scheduleSteps nts s1
      in (s2, evs1 @ evs2))"

definition stageClearFires :: "event list \<Rightarrow> bool" where
  "stageClearFires evs \<longleftrightarrow> SfxCue stageClearSound \<in> set evs"

text \<open>The bgm-switch cue is played: \<^verbatim>\<open>safePlay\<close> runs on its audio element.\<close>

definition bgmSwitchPlayed :: "event list \<Rightarrow> bool" where
  "bgmSwitchPlayed evs \<longleftrightarrow> SafePlay bgmSwitchSound \<in> set evs"

fun isVoice :: "event \<Rightarrow> bool" where
  "isVoice (PlayKick t) = True"
| "isVoice (PlayHihat t) = True"
| "isVoice (PlaySnare t) = True"
| "isVoice e = False"

fun isQueueUiPulse :: "event \<Rightarrow> bool" where
  "isQueueUiPulse (QueueUiPulse t k n) = True"
| "isQueueUiPulse e = False"

text \<open>What the progression tracker keeps true between operations.\<close>

definition progression_inv :: "state \<Rightarrow> bool" where
  "progression_inv s \<longleftrightarrow>
     0 \<le> correctTotal s \<and> stageCorrect s = correctTotal s mod 20 \<and>
     drumLevel s = computeDrumLevel (stageCorrect s) \<and>
     0 \<le> difficultyStage s \<and> diff s = difficultyForStage (difficultyStage s)"

definition transport_inv :: "state \<Rightarrow> bool" where
  "transport_inv s \<longleftrightarrow> 0 \<le> step s \<and> step s < 16 \<and> 0 \<le> barCounter s \<and> barCounter s < 64"

text \<open>The pending pulse timeouts are exactly the one the engine remembers, if any.\<close>

definition pulse_timer_inv :: "state \<Rightarrow> bool" where
  "pulse_timer_inv s \<longleftrightarrow>
     map fst (pulseTimeouts s) = (case uiPulseTimer s of None \<Rightarrow> [] | Some h \<Rightarrow> [h])"

text \<open>An optionally signed decimal integer: an optional \<^verbatim>\<open>-\<close>, then one digit or more.\<close>

definition integerLiteral :: "jsstring \<Rightarrow> bool" where
  "integerLiteral s \<longleftrightarrow>
     (let ds = (if s \<noteq> [] \<and> hd s = 0x2D then tl s else s)
      in ds \<noteq> [] \<and> list_all isDigit ds)"

subsection \<open>Example states\<close>

text \<open>Mid-stage, SFX on and the beat running.\<close>

definition midGame :: state where
  "midGame =
     initialState\<lparr>currentAnswer := 12, correctTotal := 12, stageCorrect := 12, drumLevel := 1,
       bgmStage := 2, step := 5, barCounter := 3, soundEnabled := True, running := True,
       timerId := Some 1, nextHandle := 2\<rparr>"

text \<open>The beat running with SFX off, as after the first click on the BGM button.\<close>

definition beatOnly :: state where
  "beatOnly = initialState\<lparr>running := True, timerId := Some 1, nextHandle := 2\<rparr>"

text \<open>Four muted steps ahead, on step 12 of the last bar of the cycle.\<close>

definition mutedState :: state where
  "mutedState = midGame\<lparr>muteSteps := 4, step := 12, barCounter := 63\<rparr>"

text \<open>Difficulty stage 3, the first with division.\<close>

definition stage3 :: state where
  "stage3 = initialState\<lparr>correctTotal := 60, difficultyStage := 3, diff := difficultyForStage 3\<rparr>"

text \<open>Four correct answers from the initial state, SFX off as it is when the page loads.\<close>

definition fourCorrect :: state where
  "fourCorrect = afterCorrect 4 initialState"

text \<open>Fourteen correct answers in the stage, SFX on: the next one reaches the top variation.\<close>

definition nearTopVariation :: state where
  "nearTopVariation = midGame\<lparr>currentAnswer := 14, correctTotal := 14, stageCorrect := 14\<rparr>"

text \<open>
  The snare tier at the top variation, on step 15 of a bar with \<open>barCounter mod 4 = 3\<close> (the
  fill: snare without kick), while the pulse timeout of an earlier kick is still pending.
\<close>

definition snareFill :: state where
  "snareFill =
     initialState\<lparr>stageCorrect := 20, drumLevel := 2, bgmStage := 3, step := 15, barCounter := 3,
       running := True, timerId := Some 1, nextHandle := 3, uiPulseTimer := Some 2,
       pulseTimeouts := [(2, 50)], uiPulseHits := (True, False)\<rparr>"

text \<open>The snare tier on step 4, where kick, hi-hat and snare all hit; no pulse timeout pending.\<close>

definition backbeat :: state where
  "backbeat =
     initialState\<lparr>stageCorrect := 20, drumLevel := 2, step := 4, running := True,
       timerId := Some 1, nextHandle := 2\<rparr>"

text \<open>
  The page is loaded, the beat is switched on and the lookahead tick has scheduled the
  first four steps; the pulse callback of step 0 has not run yet.
\<close>

definition pendingPulse :: state where
  "pendingPulse =
     fst (scheduleSteps [(0, 1/20), (0, 7/40), (0, 3/10), (0, 17/40)]
            (fst (toggleDrum (fst (initApp (sconst 0))))))"

text \<open>
  The page is loaded with the problem \<^verbatim>\<open>1 - 1\<close> and the answer \<^verbatim>\<open>0\<close> is submitted twenty
  times in a row, each time before the timeout of the next problem has run.
\<close>

definition twentyCorrect :: state where
  "twentyCorrect = ((\<lambda>s. fst (checkAnswer [0x30] s)) ^^ 20) (fst (initApp (sconst 0)))"

section \<open>Properties\<close>

lemmas SETTINGS =
  unlockHihatAt_def unlockSnareAt_def stepsPerBar_def barsCycle_def bgmStageMax_def
  bgmSwitchEveryCorrect_def stageClearEveryCorrect_def muteOnWrongSteps_def

lemma smod_nonneg: "0 \<le> a \<Longrightarrow> 0 < b \<Longrightarrow> (a::int) smod b = a mod b"
  by (simp add: signed_modulo_int_def sgn_if)

subsection \<open>Correct answers\<close>

lemma setBgmStage_fields:
  "correctTotal (fst (setBgmStageFromStageCorrect s)) = correctTotal s"
  "stageCorrect (fst (setBgmStageFromStageCorrect s)) = stageCorrect s"
  "drumLevel (fst (setBgmStageFromStageCorrect s)) = drumLevel s"
  "difficultyStage (fst (setBgmStageFromStageCorrect s)) = difficultyStage s"
  "diff (fst (setBgmStageFromStageCorrect s)) = diff s"
  "bgmStage (fst (setBgmStageFromStageCorrect s)) = computeBgmStage (stageCorrect s)"
  by (simp_all add: setBgmStageFromStageCorrect_def resetTransport_def Let_def)

lemma updateOnCorrect_fields:
  "correctTotal (fst (updateOnCorrect s)) = correctTotal s + 1"
  "stageCorrect (fst (updateOnCorrect s)) =
     (if (correctTotal s + 1) smod 20 = 0 then 0 else stageCorrect s + 1)"
  "drumLevel (fst (updateOnCorrect s)) =
     (if (correctTotal s + 1) smod 20 = 0 then 0 else computeDrumLevel (stageCorrect s + 1))"
  "difficultyStage (fst (updateOnCorrect s)) =
     (if (correctTotal s + 1) smod 20 = 0 then difficultyStage s + 1 else difficultyStage s)"
  by (simp_all add: updateOnCorrect_def Let_def split_beta setBgmStage_fields stageClear_def
      resetTransport_def stageClearEveryCorrect_def)

lemma afterCorrect_0: "afterCorrect 0 s = s"
  by (simp add: afterCorrect_def)

lemma afterCorrect_Suc: "afterCorrect (Suc n) s = fst (updateOnCorrect (afterCorrect n s))"
  by (simp add: afterCorrect_def)

lemma afterCorrect_below_20:
  "n \<le> 19 \<Longrightarrow>
     correctTotal (afterCorrect n initialState) = int n \<and>
     stageCorrect (afterCorrect n initialState) = int n \<and>
     drumLevel (afterCorrect n initialState) = computeDrumLevel (int n) \<and>
     difficultyStage (afterCorrect n initialState) = 0"
proof (induction n)
  case 0
  show ?case by (simp add: afterCorrect_0 initialState_def computeDrumLevel_def SETTINGS)
next
  case (Suc n)
  then have IH: "correctTotal (afterCorrect n initialState) = int n"
      "stageCorrect (afterCorrect n initialState) = int n"
      "difficultyStage (afterCorrect n initialState) = 0"
    by simp_all
  have "int n + 1 < 20" "0 \<le> int n + 1" using Suc.prems by simp_all
  then have nz: "(int n + 1) smod 20 \<noteq> 0"
    by (simp add: smod_nonneg)
  show ?case
    using nz by (simp add: afterCorrect_Suc updateOnCorrect_fields IH add.commute)
qed

lemma afterCorrect_19:
  "correctTotal (afterCorrect 19 initialState) = 19"
  "stageCorrect (afterCorrect 19 initialState) = 19"
  "drumLevel (afterCorrect 19 initialState) = 1"
  "difficultyStage (afterCorrect 19 initialState) = 0"
  using afterCorrect_below_20 [of 19] by (simp_all add: computeDrumLevel_def SETTINGS)

lemma afterCorrect_20:
  "correctTotal (afterCorrect 20 initialState) = 20"
  "stageCorrect (afterCorrect 20 initialState) = 0"
  "drumLevel (afterCorrect 20 initialState) = 0"
  "difficultyStage (afterCorrect 20 initialState) = 1"
proof -
  have twenty: "afterCorrect 20 initialState = fst (updateOnCorrect (afterCorrect 19 initialState))"
    using afterCorrect_Suc [of 19 initialState] by simp
  have sm: "(20::int) smod 20 = 0" by (simp add: smod_nonneg)
  show "correctTotal (afterCorrect 20 initialState) = 20"
    "stageCorrect (afterCorrect 20 initialState) = 0"
    "drumLevel (afterCorrect 20 initialState) = 0"
    "difficultyStage (afterCorrect 20 initialState) = 1"
    using sm by (simp_all add: twenty updateOnCorrect_fields afterCorrect_19)
qed

text \<open>
  C1. Twenty correct answers in a row from the initial state. After the 10th and after
  the 19th the beat level is 1 (kick and hi-hat). The 20th raises \<open>stageCorrect\<close> to 20,
  for which \<open>computeDrumLevel\<close> gives 2 (snare), but the same answer makes \<open>correctTotal\<close>
  a multiple of 20, so \<open>stageClear\<close> runs inside the same call: the state it leaves has
  beat level 0, \<open>stageCorrect = 0\<close> and difficulty stage 1. The snare tier is not the
  beat level of the resulting state.
\<close>

theorem C1_twenty_correct_answers:
  "drumLevel (afterCorrect 10 initialState) = 1 \<and>
   drumLevel (afterCorrect 19 initialState) = 1 \<and>
   stageCorrect (afterCorrect 19 initialState) = 19 \<and>
   computeDrumLevel (stageCorrect (afterCorrect 19 initialState) + 1) = 2 \<and>
   drumLevel (afterCorrect 20 initialState) = 0 \<and>
   stageCorrect (afterCorrect 20 initialState) = 0 \<and>
   difficultyStage (afterCorrect 20 initialState) = 1"
proof -
  have a10: "drumLevel (afterCorrect 10 initialState) = 1"
    using afterCorrect_below_20 [of 10] by (simp add: computeDrumLevel_def SETTINGS)
  show ?thesis
    by (simp add: a10 afterCorrect_19 afterCorrect_20 computeDrumLevel_def SETTINGS)
qed

lemma correctTotal_afterCorrect: "correctTotal (afterCorrect n s) = correctTotal s + int n"
  by (induction n) (simp_all add: afterCorrect_0 afterCorrect_Suc updateOnCorrect_fields)

lemma setBgmStage_events:
  "set (snd (setBgmStageFromStageCorrect s)) \<subseteq> {SfxCue bgmSwitchSound, SafePlay bgmSwitchSound}"
  by (auto simp add: setBgmStageFromStageCorrect_def Let_def playBgmSwitchSe_def safePlaySfx_def)

lemma stageClearFires_setBgm: "\<not> stageClearFires (snd (setBgmStageFromStageCorrect s))"
  using setBgmStage_events [of s] by (auto simp add: stageClearFires_def)

lemma stageClearFires_stageClear: "stageClearFires (snd (stageClear s))"
  by (simp add: stageClearFires_def stageClear_def Let_def playStageClearSe_def safePlaySfx_def)

lemma stageClearFires_append:
  "stageClearFires (xs @ ys) \<longleftrightarrow> stageClearFires xs \<or> stageClearFires ys"
  by (auto simp add: stageClearFires_def)

lemma stageClearFires_updateOnCorrect:
  "stageClearFires (snd (updateOnCorrect s)) \<longleftrightarrow> (correctTotal s + 1) smod 20 = 0"
  by (simp add: updateOnCorrect_def Let_def split_beta stageClearFires_append stageClearFires_setBgm
      stageClearFires_stageClear setBgmStage_fields stageClearEveryCorrect_def)
    (simp add: stageClearFires_def)

lemma updateOnCorrect_diff:
  "diff (fst (updateOnCorrect s)) =
     (if (correctTotal s + 1) smod 20 = 0 then difficultyForStage (difficultyStage s + 1) else diff s)"
  by (simp add: updateOnCorrect_def Let_def split_beta setBgmStage_fields stageClear_def
      resetTransport_def stageClearEveryCorrect_def)

lemma updateOnCorrect_cleared:
  assumes "(correctTotal s + 1) smod 20 = 0"
  shows "bgmStage (fst (updateOnCorrect s)) = 0"
    and "step (fst (updateOnCorrect s)) = 0"
    and "barCounter (fst (updateOnCorrect s)) = 0"
  using assms
  by (simp_all add: updateOnCorrect_def Let_def split_beta setBgmStage_fields stageClear_def
      resetTransport_def stageClearEveryCorrect_def)

text \<open>
  C4. In any run of correct answers from a state whose \<open>correctTotal\<close> is not negative,
  the answer that follows the first \<open>n\<close> fires a stage clear (the stage-clear cue is
  requested) exactly when the incremented \<open>correctTotal\<close> is a positive multiple of 20.
  When it fires, the difficulty stage goes up by one, the profile is that of the new
  stage, \<open>stageCorrect\<close>, the beat level and the BGM variation are 0 and the transport
  position is (0, 0).
\<close>

theorem C4_stage_clear_every_20:
  assumes "0 \<le> correctTotal s" and "updateOnCorrect (afterCorrect n s) = (s', evs)"
  shows "correctTotal s' = correctTotal s + int n + 1 \<and>
         (stageClearFires evs \<longleftrightarrow> correctTotal s' mod 20 = 0 \<and> correctTotal s' > 0) \<and>
         (stageClearFires evs \<longrightarrow>
            difficultyStage s' = difficultyStage (afterCorrect n s) + 1 \<and>
            diff s' = difficultyForStage (difficultyStage (afterCorrect n s) + 1) \<and>
            stageCorrect s' = 0 \<and> drumLevel s' = 0 \<and> bgmStage s' = 0 \<and>
            step s' = 0 \<and> barCounter s' = 0)"
proof -
  let ?t = "afterCorrect n s"
  have s': "s' = fst (updateOnCorrect ?t)" and evs: "evs = snd (updateOnCorrect ?t)"
    using assms(2) by simp_all
  have total: "correctTotal s' = correctTotal s + int n + 1"
    by (simp add: s' updateOnCorrect_fields correctTotal_afterCorrect)
  have pos: "0 < correctTotal s'" using assms(1) total by simp
  have fires: "stageClearFires evs \<longleftrightarrow> correctTotal s' smod 20 = 0"
    by (simp add: evs s' stageClearFires_updateOnCorrect updateOnCorrect_fields)
  have "correctTotal s' smod 20 = correctTotal s' mod 20"
    using pos by (simp add: smod_nonneg)
  with fires have iff: "stageClearFires evs \<longleftrightarrow> correctTotal s' mod 20 = 0 \<and> correctTotal s' > 0"
    using pos by simp
  have "stageClearFires evs \<Longrightarrow> (correctTotal ?t + 1) smod 20 = 0"
    by (simp add: evs stageClearFires_updateOnCorrect)
  then show ?thesis
    using total iff
    by (simp add: s' updateOnCorrect_cleared updateOnCorrect_fields updateOnCorrect_diff)
qed

theorem C4_stage_clear_every_20_witness:
  "0 \<le> correctTotal initialState \<and>
   stageClearFires (snd (updateOnCorrect (afterCorrect 19 initialState))) \<and>
   correctTotal (fst (updateOnCorrect (afterCorrect 19 initialState))) = 20 \<and>
   difficultyStage (fst (updateOnCorrect (afterCorrect 19 initialState))) = 1 \<and>
   diff (fst (updateOnCorrect (afterCorrect 19 initialState))) = difficultyForStage 1 \<and>
   stageCorrect (fst (updateOnCorrect (afterCorrect 19 initialState))) = 0 \<and>
   drumLevel (fst (updateOnCorrect (afterCorrect 19 initialState))) = 0 \<and>
   \<not> stageClearFires (snd (updateOnCorrect (afterCorrect 18 initialState)))"
proof -
  have z: "0 \<le> correctTotal initialState" by (simp add: initialState_def)
  have d: "difficultyStage (afterCorrect 19 initialState) = 0"
    using afterCorrect_below_20 [of 19] by simp
  show ?thesis
    using C4_stage_clear_every_20 [OF z, of 19 "fst (updateOnCorrect (afterCorrect 19 initialState))"
        "snd (updateOnCorrect (afterCorrect 19 initialState))"]
      C4_stage_clear_every_20 [OF z, of 18 "fst (updateOnCorrect (afterCorrect 18 initialState))"
        "snd (updateOnCorrect (afterCorrect 18 initialState))"]
    by (simp add: d) (simp add: initialState_def)
qed

subsection \<open>BGM variation\<close>

lemma computeBgmStage_div: "computeBgmStage sc = min (sc div 5) 3"
  unfolding computeBgmStage_def Let_def bgmSwitchEveryCorrect_def bgmStageMax_def
  by (simp only: floor_divide_of_int_eq)

lemma bgmSwitchPlayed_append:
  "bgmSwitchPlayed (xs @ ys) \<longleftrightarrow> bgmSwitchPlayed xs \<or> bgmSwitchPlayed ys"
  by (auto simp add: bgmSwitchPlayed_def)

lemma bgmSwitchPlayed_setBgm:
  "bgmSwitchPlayed (snd (setBgmStageFromStageCorrect s)) \<longleftrightarrow>
     computeBgmStage (stageCorrect s) \<noteq> bgmStage s \<and> soundEnabled s"
  by (simp add: setBgmStageFromStageCorrect_def Let_def playBgmSwitchSe_def safePlaySfx_def
      bgmSwitchPlayed_def resetTransport_def)

lemma bgmSwitchPlayed_stageClear: "\<not> bgmSwitchPlayed (snd (stageClear s))"
  by (simp add: stageClear_def Let_def playStageClearSe_def safePlaySfx_def bgmSwitchPlayed_def)

lemma bgmSwitchPlayed_updateOnCorrect:
  "bgmSwitchPlayed (snd (updateOnCorrect s)) \<longleftrightarrow>
     computeBgmStage (stageCorrect s + 1) \<noteq> bgmStage s \<and> soundEnabled s"
  by (simp add: updateOnCorrect_def Let_def split_beta bgmSwitchPlayed_append bgmSwitchPlayed_setBgm
      bgmSwitchPlayed_stageClear)
    (simp add: bgmSwitchPlayed_def)

lemma setBgmStage_transport:
  "step (fst (setBgmStageFromStageCorrect s)) =
     (if computeBgmStage (stageCorrect s) \<noteq> bgmStage s then 0 else step s)"
  "barCounter (fst (setBgmStageFromStageCorrect s)) =
     (if computeBgmStage (stageCorrect s) \<noteq> bgmStage s then 0 else barCounter s)"
  by (simp_all add: setBgmStageFromStageCorrect_def resetTransport_def Let_def)

lemma updateOnCorrect_transport:
  "step (fst (updateOnCorrect s)) =
     (if (correctTotal s + 1) smod 20 = 0 \<or> computeBgmStage (stageCorrect s + 1) \<noteq> bgmStage s
      then 0 else step s)"
  "barCounter (fst (updateOnCorrect s)) =
     (if (correctTotal s + 1) smod 20 = 0 \<or> computeBgmStage (stageCorrect s + 1) \<noteq> bgmStage s
      then 0 else barCounter s)"
  by (simp_all add: updateOnCorrect_def Let_def split_beta setBgmStage_fields setBgmStage_transport
      stageClear_def resetTransport_def stageClearEveryCorrect_def)

text \<open>
  C5. The recomputed BGM variation is \<open>min (stageCorrect div 5) 3\<close> (the floor of the
  quotient, capped at 3). On a correct answer, exactly when that value, taken at the
  incremented \<open>stageCorrect\<close>, differs from the current \<open>bgmStage\<close>, \<open>bgmStage\<close> takes the
  value and the transport position is reset to (0, 0); the bgm-switch cue is played
  exactly when the value differs and SFX is enabled. When the value is the same,
  \<open>setBgmStageFromStageCorrect\<close> changes nothing and emits nothing, and a correct answer
  that also clears no stage leaves the transport position and \<open>bgmStage\<close> as they were.
\<close>

theorem C5_bgm_variation_switch:
  "computeBgmStage sc = min (sc div 5) 3 \<and>
   (bgmSwitchPlayed (snd (updateOnCorrect s)) \<longleftrightarrow>
      computeBgmStage (stageCorrect s + 1) \<noteq> bgmStage s \<and> soundEnabled s) \<and>
   (computeBgmStage (stageCorrect s + 1) \<noteq> bgmStage s \<longrightarrow>
      step (fst (updateOnCorrect s)) = 0 \<and> barCounter (fst (updateOnCorrect s)) = 0) \<and>
   (computeBgmStage (stageCorrect s + 1) = bgmStage s \<and> (correctTotal s + 1) smod 20 \<noteq> 0 \<longrightarrow>
      step (fst (updateOnCorrect s)) = step s \<and>
      barCounter (fst (updateOnCorrect s)) = barCounter s \<and>
      bgmStage (fst (updateOnCorrect s)) = bgmStage s) \<and>
   (computeBgmStage (stageCorrect t) \<noteq> bgmStage t \<longrightarrow>
      snd (setBgmStageFromStageCorrect t) =
        SfxCue bgmSwitchSound # (if soundEnabled t then [SafePlay bgmSwitchSound] else []) \<and>
      (bgmSwitchPlayed (snd (setBgmStageFromStageCorrect t)) \<longleftrightarrow> soundEnabled t) \<and>
      fst (setBgmStageFromStageCorrect t) =
        t\<lparr>bgmStage := computeBgmStage (stageCorrect t), step := 0, barCounter := 0\<rparr>) \<and>
   (computeBgmStage (stageCorrect t) = bgmStage t \<longrightarrow>
      setBgmStageFromStageCorrect t = (t, []))"
proof -
  have a: "computeBgmStage sc = min (sc div 5) 3"
    by (rule computeBgmStage_div)
  have b: "computeBgmStage (stageCorrect t) = bgmStage t \<longrightarrow>
      setBgmStageFromStageCorrect t = (t, [])"
    by (simp add: setBgmStageFromStageCorrect_def Let_def)
  have c: "computeBgmStage (stageCorrect t) \<noteq> bgmStage t \<longrightarrow>
      snd (setBgmStageFromStageCorrect t) =
        SfxCue bgmSwitchSound # (if soundEnabled t then [SafePlay bgmSwitchSound] else []) \<and>
      fst (setBgmStageFromStageCorrect t) =
        t\<lparr>bgmStage := computeBgmStage (stageCorrect t), step := 0, barCounter := 0\<rparr>"
    by (simp add: setBgmStageFromStageCorrect_def Let_def playBgmSwitchSe_def safePlaySfx_def
        resetTransport_def)
  have d: "computeBgmStage (stageCorrect s + 1) = bgmStage s \<and> (correctTotal s + 1) smod 20 \<noteq> 0 \<longrightarrow>
      bgmStage (fst (updateOnCorrect s)) = bgmStage s"
    by (simp add: updateOnCorrect_def Let_def split_beta setBgmStage_fields stageClearEveryCorrect_def)
  show ?thesis
    using a b c d
    by (simp add: bgmSwitchPlayed_updateOnCorrect updateOnCorrect_transport)
       (simp add: bgmSwitchPlayed_def)
qed

lemma updateOnCorrect_events:
  "snd (updateOnCorrect s) =
     (if computeBgmStage (stageCorrect s + 1) \<noteq> bgmStage s
      then SfxCue bgmSwitchSound # (if soundEnabled s then [SafePlay bgmSwitchSound] else [])
      else []) @
     (if (correctTotal s + 1) smod 20 = 0
      then SfxCue stageClearSound # (if soundEnabled s then [SafePlay stageClearSound] else [])
      else []) @
     [RenderStats]"
  by (simp add: updateOnCorrect_def setBgmStageFromStageCorrect_def stageClear_def Let_def
      playBgmSwitchSe_def playStageClearSe_def safePlaySfx_def resetTransport_def
      stageClearEveryCorrect_def)

lemma updateOnCorrect_soundEnabled: "soundEnabled (fst (updateOnCorrect s)) = soundEnabled s"
  by (simp add: updateOnCorrect_def setBgmStageFromStageCorrect_def stageClear_def Let_def
      resetTransport_def)

lemma updateOnCorrect_bgmStage:
  "bgmStage (fst (updateOnCorrect s)) =
     (if (correctTotal s + 1) smod 20 = 0 then 0 else computeBgmStage (stageCorrect s + 1))"
  by (simp add: updateOnCorrect_def Let_def split_beta setBgmStage_fields stageClear_def
      resetTransport_def stageClearEveryCorrect_def)

lemma afterCorrect_soundEnabled: "soundEnabled (afterCorrect n s) = soundEnabled s"
  by (induction n) (simp_all add: afterCorrect_0 afterCorrect_Suc updateOnCorrect_soundEnabled)

lemma fourCorrect_fields:
  "correctTotal fourCorrect = 4" "stageCorrect fourCorrect = 4" "bgmStage fourCorrect = 0"
  "soundEnabled fourCorrect = False"
proof -
  have three: "correctTotal (afterCorrect 3 initialState) = 3"
      "stageCorrect (afterCorrect 3 initialState) = 3"
    using afterCorrect_below_20 [of 3] by simp_all
  have four: "fourCorrect = fst (updateOnCorrect (afterCorrect 3 initialState))"
    using afterCorrect_Suc [of 3 initialState] by (simp add: fourCorrect_def)
  have sm: "(4 :: int) smod 20 = 4" by (simp add: smod_nonneg)
  show "correctTotal fourCorrect = 4" "stageCorrect fourCorrect = 4"
    using afterCorrect_below_20 [of 4] by (simp_all add: fourCorrect_def)
  show "bgmStage fourCorrect = 0"
    by (simp add: four updateOnCorrect_bgmStage three sm computeBgmStage_div)
  show "soundEnabled fourCorrect = False"
    by (simp add: fourCorrect_def afterCorrect_soundEnabled initialState_def)
qed

theorem C5_bgm_variation_switch_witness:
  "computeBgmStage 17 = 3 \<and>
   soundEnabled nearTopVariation \<and> bgmStage nearTopVariation = 2 \<and> step nearTopVariation = 5 \<and>
   computeBgmStage (stageCorrect nearTopVariation + 1) = 3 \<and>
   bgmSwitchPlayed (snd (updateOnCorrect nearTopVariation)) \<and>
   step (fst (updateOnCorrect nearTopVariation)) = 0 \<and>
   barCounter (fst (updateOnCorrect nearTopVariation)) = 0 \<and>
   \<not> bgmSwitchPlayed (snd (updateOnCorrect midGame)) \<and>
   step (fst (updateOnCorrect midGame)) = 5 \<and>
   barCounter (fst (updateOnCorrect midGame)) = 3 \<and>
   setBgmStageFromStageCorrect midGame = (midGame, []) \<and>
   \<not> bgmSwitchPlayed (snd (updateOnCorrect fourCorrect)) \<and>
   step (fst (updateOnCorrect fourCorrect)) = 0"
proof -
  have c: "computeBgmStage 5 = 1" "computeBgmStage 12 = 2" "computeBgmStage 13 = 2"
    "computeBgmStage 15 = 3"
    by (simp_all add: computeBgmStage_div)
  have sm: "(13 :: int) smod 20 = 13" "(15 :: int) smod 20 = 15" by (simp_all add: smod_nonneg)
  have mg: "correctTotal midGame = 12" "stageCorrect midGame = 12" "bgmStage midGame = 2"
    "soundEnabled midGame" "step midGame = 5" "barCounter midGame = 3"
    by (simp_all add: midGame_def initialState_def)
  have nt: "correctTotal nearTopVariation = 14" "stageCorrect nearTopVariation = 14"
    "bgmStage nearTopVariation = 2" "soundEnabled nearTopVariation" "step nearTopVariation = 5"
    by (simp_all add: nearTopVariation_def midGame_def initialState_def)
  have top: "computeBgmStage 17 = 3 \<and> bgmSwitchPlayed (snd (updateOnCorrect nearTopVariation)) \<and>
      step (fst (updateOnCorrect nearTopVariation)) = 0 \<and>
      barCounter (fst (updateOnCorrect nearTopVariation)) = 0"
    using C5_bgm_variation_switch [of 17 nearTopVariation midGame] by (simp add: c nt)
  have mid: "\<not> bgmSwitchPlayed (snd (updateOnCorrect midGame)) \<and>
      step (fst (updateOnCorrect midGame)) = 5 \<and> barCounter (fst (updateOnCorrect midGame)) = 3 \<and>
      setBgmStageFromStageCorrect midGame = (midGame, [])"
    using C5_bgm_variation_switch [of 17 midGame midGame] by (simp add: c sm mg)
  have off: "\<not> bgmSwitchPlayed (snd (updateOnCorrect fourCorrect)) \<and>
      step (fst (updateOnCorrect fourCorrect)) = 0"
    using C5_bgm_variation_switch [of 17 fourCorrect midGame] by (simp add: c fourCorrect_fields)
  show ?thesis
    using top mid off by (simp add: nt c)
qed

text \<open>
  A changed value alone does not play the cue: after four correct answers with SFX off
  the fifth changes the variation from 0 to 1, and nothing is played.
\<close>

theorem C5_cue_needs_sfx_counterexample:
  "computeBgmStage (stageCorrect fourCorrect + 1) = 1 \<and> bgmStage fourCorrect = 0 \<and>
   computeBgmStage (stageCorrect fourCorrect + 1) \<noteq> bgmStage fourCorrect \<and>
   \<not> soundEnabled fourCorrect \<and>
   snd (updateOnCorrect fourCorrect) = [SfxCue bgmSwitchSound, RenderStats] \<and>
   \<not> bgmSwitchPlayed (snd (updateOnCorrect fourCorrect))"
proof -
  have sm: "(5 :: int) smod 20 = 5" by (simp add: smod_nonneg)
  show ?thesis
    by (simp add: updateOnCorrect_events fourCorrect_fields computeBgmStage_div sm
        bgmSwitchPlayed_def)
qed

subsection \<open>Wrong and invalid answers\<close>

lemma resetProgression_state:
  "fst (resetProgression s) =
     s\<lparr>correctTotal := 0, stageCorrect := 0, difficultyStage := 0, diff := difficultyForStage 0,
       drumLevel := 0, bgmStage := 0, step := 0, barCounter := 0\<rparr>"
  by (simp add: resetProgression_def resetTransport_def Let_def)

lemma parseAnswer_7: "parseAnswer [0x37] = Num 7"
  by (simp add: parseAnswer_def trim_def isWhiteSpace_def isDigit_def toNumber_def decimalValue_def)

text \<open>
  C2. A wrong answer (a number other than \<open>currentAnswer\<close>) sets
  \<open>correctTotal\<close>, \<open>stageCorrect\<close> and \<open>difficultyStage\<close> to 0, the profile to that of stage 0,
  the beat level and the BGM variation to 0 and the transport position to (0, 0), and
  requests the wrong-answer cue. It sets \<open>muteSteps\<close> to 4 when SFX is enabled and the
  sequencer is running; otherwise \<open>muteSteps\<close> keeps its value.
\<close>

theorem C2_wrong_answer_reset:
  assumes "parseAnswer raw = Num v" and "v \<noteq> currentAnswer s"
    and "checkAnswer raw s = (s', evs)"
  shows "correctTotal s' = 0 \<and> stageCorrect s' = 0 \<and> difficultyStage s' = 0 \<and>
         diff s' = difficultyForStage 0 \<and> drumLevel s' = 0 \<and> bgmStage s' = 0 \<and>
         step s' = 0 \<and> barCounter s' = 0 \<and>
         muteSteps s' = (if soundEnabled s \<and> running s then 4 else muteSteps s) \<and>
         SfxCue wrongSound \<in> set evs"
  using assms
  by (auto simp add: checkAnswer_def split_beta Let_def resetProgression_state playWrongFx_def
      muteOnWrongSteps_def safePlaySfx_def)

theorem C2_wrong_answer_reset_witness:
  "parseAnswer [0x37] = Num 7 \<and> 7 \<noteq> currentAnswer midGame \<and>
   soundEnabled midGame \<and> running midGame \<and>
   correctTotal (fst (checkAnswer [0x37] midGame)) = 0 \<and>
   drumLevel (fst (checkAnswer [0x37] midGame)) = 0 \<and>
   step (fst (checkAnswer [0x37] midGame)) = 0 \<and>
   muteSteps (fst (checkAnswer [0x37] midGame)) = 4"
  using C2_wrong_answer_reset [of "[0x37]" 7 midGame "fst (checkAnswer [0x37] midGame)"
      "snd (checkAnswer [0x37] midGame)"]
  by (simp add: parseAnswer_7 midGame_def initialState_def)

text \<open>
  A running sequencer alone does not open the mute window: with the sequencer running
  and SFX off, a wrong answer leaves \<open>muteSteps\<close> at 0.
\<close>

theorem C2_mute_needs_sfx_counterexample:
  "running beatOnly \<and> parseAnswer [0x37] = Num 7 \<and> 7 \<noteq> currentAnswer beatOnly \<and>
   muteSteps (fst (checkAnswer [0x37] beatOnly)) = 0 \<and>
   muteSteps (fst (checkAnswer [0x37] beatOnly)) \<noteq> muteOnWrongSteps"
  by (simp add: parseAnswer_7 checkAnswer_def split_beta Let_def resetProgression_state
      playWrongFx_def muteOnWrongSteps_def beatOnly_def initialState_def)

lemma digits1_list_all: "digits1 cs \<longleftrightarrow> cs \<noteq> [] \<and> list_all isDigit cs"
  by (induction cs rule: digits1.induct) simp_all

lemma regexTest_integerLiteral: "regexTest s = integerLiteral s"
  by (cases s) (simp_all add: integerLiteral_def digits1_list_all isDigit_def)

text \<open>
  C9. \<open>parseAnswer\<close> trims the text first. It returns \<open>Null\<close> exactly when nothing is left
  (so for the empty text), and \<open>NaN\<close> exactly when what is left is not an optionally
  signed decimal integer. In both cases \<open>checkAnswer\<close> returns the state as it was, whole,
  and its only event is the focus (with selection) of the answer field: no cue, no
  render, no new problem.
\<close>

theorem C9_invalid_answer_rejected:
  "(parseAnswer raw = Null \<longleftrightarrow> trim raw = []) \<and>
   (parseAnswer raw = NaN \<longleftrightarrow> trim raw \<noteq> [] \<and> \<not> integerLiteral (trim raw)) \<and>
   (trim raw = [] \<or> \<not> integerLiteral (trim raw) \<longrightarrow>
      checkAnswer raw s = (s, [FocusAnswer True])) \<and>
   parseAnswer [] = Null"
  by (auto simp add: parseAnswer_def checkAnswer_def Let_def regexTest_integerLiteral trim_def)

theorem C9_invalid_answer_rejected_witness:
  "parseAnswer [] = Null \<and>
   parseAnswer [0x20, 0x20] = Null \<and>
   parseAnswer [0x31, 0x32, 0x61] = NaN \<and>
   parseAnswer [0x2D] = NaN \<and>
   parseAnswer [0x31, 0x2E, 0x35] = NaN \<and>
   checkAnswer [] midGame = (midGame, [FocusAnswer True]) \<and>
   checkAnswer [0x31, 0x32, 0x61] midGame = (midGame, [FocusAnswer True])"
  using C9_invalid_answer_rejected [of "[]" midGame]
    C9_invalid_answer_rejected [of "[0x20, 0x20]" midGame]
    C9_invalid_answer_rejected [of "[0x2D]" midGame]
    C9_invalid_answer_rejected [of "[0x31, 0x2E, 0x35]" midGame]
    C9_invalid_answer_rejected [of "[0x31, 0x32, 0x61]" midGame]
  by (simp add: trim_def isWhiteSpace_def integerLiteral_def isDigit_def)

subsection \<open>Problem generation\<close>

lemma randInt_lower:
  assumes "0 \<le> shd rs" and "lo \<le> hi + 1"
  shows "lo \<le> fst (randInt lo hi rs)"
proof -
  have "0 \<le> shd rs * of_int (hi - lo + 1)"
    using assms by simp
  then have "0 \<le> \<lfloor>shd rs * of_int (hi - lo + 1)\<rfloor>" by simp
  then show ?thesis by (simp add: randInt_def)
qed

lemma snd_randInt: "snd (randInt lo hi rs) = stl rs"
  by (simp add: randInt_def)

lemma pickMode_Div:
  assumes "diff s = difficultyForStage (difficultyStage s)"
    and "fst (pickMode rs s) = Some Div"
  shows "3 \<le> difficultyStage s"
proof (rule ccontr)
  assume "\<not> 3 \<le> difficultyStage s"
  then have "difficultyStage s \<le> 0 \<or> difficultyStage s = 1 \<or> difficultyStage s = 2" by arith
  then show False
    using assms
    by (auto simp add: pickMode_def Let_def split_beta arrayGet_def difficultyForStage_def
        nth_Cons' split: if_splits)
qed

lemma snd_pickMode: "snd (pickMode rs s) = rs \<or> snd (pickMode rs s) = stl rs"
  by (simp add: pickMode_def Let_def split_beta snd_randInt)

lemma buildProblem_Divide:
  assumes "prob_op (fst (buildProblem rs s)) = Divide"
  shows "fst (pickMode rs s) = Some Div \<and>
         prob_answer (fst (buildProblem rs s)) =
           fst (randInt (diff_min (diff s)) (diff_max (diff s)) (stl (stl (snd (pickMode rs s))))) \<and>
         prob_b (fst (buildProblem rs s)) =
           fst (randInt (diff_min (diff s)) (diff_max (diff s))
                  (stl (stl (stl (snd (pickMode rs s)))))) \<and>
         prob_a (fst (buildProblem rs s)) =
           prob_b (fst (buildProblem rs s)) * prob_answer (fst (buildProblem rs s))"
  using assms
  by (simp add: buildProblem_def Let_def split_beta snd_randInt split: if_splits)

text \<open>
  C6. Let the profile be the one of the current difficulty stage (as it is in every
  reachable state, see \<open>reachable_profile\<close> below) and let every draw of
  \<^verbatim>\<open>Math.random()\<close> lie in [0, 1). If the generated problem is a division, then
  \<open>a = b * answer\<close> and \<open>b \<noteq> 0\<close>. Division is only drawn from stage 3 on, where the least
  operand of the profile is positive.
\<close>

theorem C6_division_problem_exact:
  assumes "diff s = difficultyForStage (difficultyStage s)"
    and "\<forall>r \<in> sset rs. 0 \<le> r \<and> r < 1"
    and "prob_op (fst (buildProblem rs s)) = Divide"
  shows "prob_a (fst (buildProblem rs s)) =
           prob_b (fst (buildProblem rs s)) * prob_answer (fst (buildProblem rs s)) \<and>
         prob_b (fst (buildProblem rs s)) \<noteq> 0 \<and>
         3 \<le> difficultyStage s \<and> 0 < diff_min (diff s)"
proof -
  let ?p = "fst (buildProblem rs s)"
  let ?rs1 = "snd (pickMode rs s)"
  note bp = buildProblem_Divide [OF assms(3)]
  have stage: "3 \<le> difficultyStage s"
    using pickMode_Div [OF assms(1), of rs] bp by simp
  then have d: "diff_min (diff s) = 2" "diff_max (diff s) = 40 + (difficultyStage s - 3) * 10"
    by (simp_all add: assms(1) difficultyForStage_def)
  have "sset ?rs1 \<subseteq> sset rs"
    using snd_pickMode [of rs s] by (auto dest: stl_sset)
  then have "shd (stl (stl (stl ?rs1))) \<in> sset rs"
    by (meson shd_sset stl_sset subsetD)
  then have "0 \<le> shd (stl (stl (stl ?rs1)))"
    using assms(2) by blast
  moreover have "diff_min (diff s) \<le> diff_max (diff s) + 1"
    using stage d by simp
  ultimately have "diff_min (diff s) \<le> prob_b ?p"
    using bp randInt_lower by simp
  then have "2 \<le> prob_b ?p" using d by simp
  then show ?thesis
    using bp stage d by simp
qed

theorem C6_division_problem_exact_witness:
  "fst (buildProblem (3/4 ## sconst (1/2)) stage3) =
     \<lparr>prob_a = 441, prob_b = 21, prob_op = Divide, prob_answer = 21\<rparr> \<and>
   3 \<le> difficultyStage stage3 \<and> diff_min (diff stage3) = 2"
proof -
  have r: "\<forall>r \<in> sset (3/4 ## sconst (1/2 :: real)). 0 \<le> r \<and> r < 1" by simp
  have d: "diff stage3 = difficultyForStage (difficultyStage stage3)"
    by (simp add: stage3_def initialState_def)
  have p: "fst (buildProblem (3/4 ## sconst (1/2)) stage3) =
     \<lparr>prob_a = 441, prob_b = 21, prob_op = Divide, prob_answer = 21\<rparr>"
    by (simp add: stage3_def initialState_def buildProblem_def pickMode_def Let_def randInt_def
        difficultyForStage_def arrayGet_def)
  then have o: "prob_op (fst (buildProblem (3/4 ## sconst (1/2)) stage3)) = Divide" by simp
  have m: "diff_min (diff stage3) = 2"
    by (simp add: stage3_def difficultyForStage_def)
  show ?thesis
    using C6_division_problem_exact [OF d r o] p m by simp
qed

subsection \<open>Step sequencer\<close>

lemma advanceStep_position:
  "step (advanceStep s) = (if step s + 1 \<ge> 16 then 0 else step s + 1)"
  "barCounter (advanceStep s) =
     (if step s + 1 \<ge> 16 then (barCounter s + 1) smod 64 else barCounter s)"
  by (simp_all add: advanceStep_def Let_def stepsPerBar_def barsCycle_def)

lemma queueUiPulse_position:
  "step (fst (queueUiPulse now time hits s)) = step s"
  "barCounter (fst (queueUiPulse now time hits s)) = barCounter s"
  by (simp_all add: queueUiPulse_def Let_def)

lemma scheduleStep_position:
  "step (fst (scheduleStep now time s)) = (if step s + 1 \<ge> 16 then 0 else step s + 1)"
  "barCounter (fst (scheduleStep now time s)) =
     (if step s + 1 \<ge> 16 then (barCounter s + 1) smod 64 else barCounter s)"
  by (simp_all add: scheduleStep_def Let_def split_beta advanceStep_position queueUiPulse_position)

text \<open>
  C7. If the transport position is in range (step in 0..15, bar in 0..63), it is in range
  after \<open>scheduleStep\<close>; after \<open>resetTransport\<close> it is (0, 0), from any state. Below step 15
  the step goes up by one and the bar stays; from step 15 the step is 0 and the bar is the
  next one modulo 64, so step 15 of bar 63 is followed by (0, 0).
\<close>

theorem C7_transport_position_invariant:
  assumes "transport_inv s"
  shows "transport_inv (fst (scheduleStep now time s)) \<and>
         transport_inv (resetTransport t) \<and>
         step (resetTransport t) = 0 \<and> barCounter (resetTransport t) = 0 \<and>
         (step s < 15 \<longrightarrow>
            step (fst (scheduleStep now time s)) = step s + 1 \<and>
            barCounter (fst (scheduleStep now time s)) = barCounter s) \<and>
         (step s = 15 \<longrightarrow>
            step (fst (scheduleStep now time s)) = 0 \<and>
            barCounter (fst (scheduleStep now time s)) = (barCounter s + 1) mod 64) \<and>
         (step s = 15 \<and> barCounter s = 63 \<longrightarrow>
            step (fst (scheduleStep now time s)) = 0 \<and>
            barCounter (fst (scheduleStep now time s)) = 0)"
proof -
  have b: "0 \<le> barCounter s" "barCounter s < 64" "0 \<le> step s" "step s < 16"
    using assms by (simp_all add: transport_inv_def)
  have sm: "(barCounter s + 1) smod 64 = (barCounter s + 1) mod 64"
    using b by (simp add: smod_nonneg)
  have rng: "0 \<le> (barCounter s + 1) mod 64" "(barCounter s + 1) mod 64 < 64"
    by simp_all
  have inv: "transport_inv (fst (scheduleStep now time s))"
    using b rng by (simp add: transport_inv_def scheduleStep_position sm)
  have rt: "transport_inv (resetTransport t)" "step (resetTransport t) = 0"
      "barCounter (resetTransport t) = 0"
    by (simp_all add: transport_inv_def resetTransport_def)
  show ?thesis
    using inv rt b by (auto simp add: scheduleStep_position sm)
qed

theorem C7_transport_position_invariant_witness:
  "transport_inv (midGame\<lparr>step := 15, barCounter := 63\<rparr>) \<and>
   step (fst (scheduleStep 0 (1/8) (midGame\<lparr>step := 15, barCounter := 63\<rparr>))) = 0 \<and>
   barCounter (fst (scheduleStep 0 (1/8) (midGame\<lparr>step := 15, barCounter := 63\<rparr>))) = 0 \<and>
   transport_inv (fst (scheduleStep 0 (1/8) (midGame\<lparr>step := 15, barCounter := 63\<rparr>))) \<and>
   transport_inv (resetTransport midGame)"
  using C7_transport_position_invariant [of "midGame\<lparr>step := 15, barCounter := 63\<rparr>" 0 "1/8"
      midGame]
  by (simp add: transport_inv_def midGame_def initialState_def)

lemma scheduleStep_muted:
  "muteSteps s > 0 \<Longrightarrow>
   scheduleStep now time s = (advanceStep (s\<lparr>muteSteps := muteSteps s - 1\<rparr>), [])"
  by (simp add: scheduleStep_def)

lemma advanceStep_muteSteps: "advanceStep (s\<lparr>muteSteps := m\<rparr>) = (advanceStep s)\<lparr>muteSteps := m\<rparr>"
  by (simp add: advanceStep_def Let_def)

lemma advanceSteps_muteSteps:
  "(advanceStep ^^ n) (s\<lparr>muteSteps := m\<rparr>) = ((advanceStep ^^ n) s)\<lparr>muteSteps := m\<rparr>"
  by (induction n) (simp_all add: advanceStep_muteSteps)

lemma scheduleSteps_muted:
  "int (length nts) \<le> muteSteps s \<Longrightarrow>
   scheduleSteps nts s =
     (((advanceStep ^^ length nts) s)\<lparr>muteSteps := muteSteps s - int (length nts)\<rparr>, [])"
proof (induction nts arbitrary: s)
  case Nil
  show ?case by simp
next
  case (Cons nt nts)
  let ?s1 = "advanceStep (s\<lparr>muteSteps := muteSteps s - 1\<rparr>)"
  have pos: "muteSteps s > 0" using Cons.prems by simp
  have m1: "muteSteps ?s1 = muteSteps s - 1"
    by (simp add: advanceStep_muteSteps)
  have "int (length nts) \<le> muteSteps ?s1" using Cons.prems m1 by simp
  from Cons.IH [OF this]
  have "scheduleSteps nts ?s1 =
      (((advanceStep ^^ length nts) ?s1)\<lparr>muteSteps := muteSteps s - 1 - int (length nts)\<rparr>, [])"
    by (simp only: m1)
  moreover have "(advanceStep ^^ length nts) ?s1 =
      ((advanceStep ^^ Suc (length nts)) s)\<lparr>muteSteps := muteSteps s - 1\<rparr>"
    by (simp add: advanceStep_muteSteps advanceSteps_muteSteps funpow_swap1)
  ultimately show ?case
    using pos by (simp add: scheduleStep_muted)
qed

lemma queueUiPulse_events:
  "snd (queueUiPulse now time hits s) = [QueueUiPulse time (fst hits) (snd hits)]"
  by (simp add: queueUiPulse_def Let_def)

lemma scheduleStep_unmuted_events:
  "\<not> muteSteps s > 0 \<Longrightarrow>
   snd (scheduleStep now time s) =
     (if kickHit s then [PlayKick time] else []) @
     (if hatHit s then [PlayHihat time] else []) @
     (if snareHit s then [PlaySnare time] else []) @
     (if kickHit s \<or> snareHit s then [QueueUiPulse time (kickHit s) (snareHit s)] else [])"
  by (simp add: scheduleStep_def Let_def split_beta queueUiPulse_events)

lemma advanceStep_explicit:
  "advanceStep s =
     s\<lparr>step := (if step s + 1 \<ge> 16 then 0 else step s + 1),
       barCounter := (if step s + 1 \<ge> 16 then (barCounter s + 1) smod 64 else barCounter s)\<rparr>"
  by (simp add: advanceStep_def Let_def stepsPerBar_def barsCycle_def)

lemma succ_mod_16_wrap:
  fixes n :: int
  assumes "n mod 16 = 15"
  shows "(n + 1) mod 16 = 0 \<and> (n + 1) div 16 = n div 16 + 1"
proof -
  have "n = 16 * (n div 16) + n mod 16" by simp
  then have e: "n + 1 = 16 * (n div 16 + 1) + 0"
    by (simp only: assms) (simp add: algebra_simps)
  have "(n + 1) div 16 = n div 16 + 1" by (rule int_div_pos_eq [OF e]) simp_all
  moreover have "(n + 1) mod 16 = 0" by (rule int_mod_pos_eq [OF e]) simp_all
  ultimately show ?thesis by simp
qed

lemma succ_mod_16_next:
  fixes n :: int
  assumes "n mod 16 \<noteq> 15"
  shows "(n + 1) mod 16 = n mod 16 + 1 \<and> (n + 1) div 16 = n div 16"
proof -
  have r: "0 \<le> n mod 16" "n mod 16 < 16" by simp_all
  have lt: "0 \<le> n mod 16 + 1" "n mod 16 + 1 < 16" using r assms by simp_all
  have "n = 16 * (n div 16) + n mod 16" by simp
  then have e: "n + 1 = 16 * (n div 16) + (n mod 16 + 1)" by simp
  have "(n + 1) div 16 = n div 16" by (rule int_div_pos_eq [OF e lt])
  moreover have "(n + 1) mod 16 = n mod 16 + 1" by (rule int_mod_pos_eq [OF e lt])
  ultimately show ?thesis by simp
qed

lemma advanceSteps_position:
  assumes "transport_inv s"
  shows "step ((advanceStep ^^ k) s) = (step s + int k) mod 16 \<and>
         barCounter ((advanceStep ^^ k) s) = (barCounter s + (step s + int k) div 16) mod 64"
proof (induction k)
  case 0
  have "0 \<le> step s" "step s < 16" "0 \<le> barCounter s" "barCounter s < 64"
    using assms by (simp_all add: transport_inv_def)
  then show ?case by simp
next
  case (Suc k)
  let ?n = "step s + int k"
  let ?t = "(advanceStep ^^ k) s"
  have st: "step ?t = ?n mod 16" and bc: "barCounter ?t = (barCounter s + ?n div 16) mod 64"
    using Suc.IH by simp_all
  have n1: "step s + int (Suc k) = ?n + 1" by simp
  have nn: "0 \<le> barCounter ?t" by (simp add: bc)
  have sm: "(barCounter ?t + 1) smod 64 = (barCounter ?t + 1) mod 64"
    using nn by (simp add: smod_nonneg)
  have bump: "(barCounter ?t + 1) mod 64 = (barCounter s + (?n div 16 + 1)) mod 64"
    unfolding bc by (simp add: mod_add_left_eq add.assoc)
  show ?case
  proof (cases "?n mod 16 = 15")
    case True
    note f = succ_mod_16_wrap [OF True]
    have "step (advanceStep ?t) = 0" "barCounter (advanceStep ?t) = (barCounter ?t + 1) smod 64"
      using True by (simp_all add: advanceStep_position st)
    then show ?thesis
      unfolding n1 by (simp add: f sm bump)
  next
    case False
    note f = succ_mod_16_next [OF False]
    have "?n mod 16 < 16" by simp
    then have "?n mod 16 + 1 < 16" using False by linarith
    then have "step (advanceStep ?t) = ?n mod 16 + 1" "barCounter (advanceStep ?t) = barCounter ?t"
      by (simp_all add: advanceStep_position st)
    then show ?thesis
      unfolding n1 by (simp add: f bc)
  qed
qed


text \<open>
  C3. Let \<open>muteSteps = N\<close> and take any \<open>N\<close> calls of \<open>scheduleStep\<close> (\<open>N\<close> is the length of
  the list of their arguments). Each of them, the \<open>(k+1)\<close>-th for \<open>k < N\<close>, emits no event
  (no voice, no pulse request) and changes three fields of the state it finds: \<open>muteSteps\<close>
  goes down by one, and the position advances by exactly one step: \<open>step + 1\<close> below 15,
  and from step 15 to step 0 of the next bar, \<open>(barCounter + 1) % 64\<close>. So after \<open>k \<le> N\<close>
  calls nothing has been emitted, \<open>muteSteps\<close> is \<open>N - k\<close> and, from a position in range, the
  position is \<open>((step + k) mod 16, (barCounter + (step + k) div 16) mod 64)\<close>. After all
  \<open>N\<close>, \<open>muteSteps\<close> is 0 and the next call is not muted: its events are the voices of the
  pattern at the position reached, and the pulse request when kick or snare hits.
\<close>

theorem C3_mute_window:
  assumes "muteSteps s = int (length nts)"
  shows "(\<forall>k < length nts.
            (let sk = fst (scheduleSteps (take k nts) s) in
             scheduleStep (fst (nts ! k)) (snd (nts ! k)) sk =
               (sk\<lparr>muteSteps := muteSteps sk - 1,
                    step := (if step sk + 1 \<ge> 16 then 0 else step sk + 1),
                    barCounter := (if step sk + 1 \<ge> 16 then (barCounter sk + 1) smod 64
                                   else barCounter sk)\<rparr>, []) \<and>
             scheduleSteps (take (Suc k) nts) s =
               scheduleStep (fst (nts ! k)) (snd (nts ! k)) sk)) \<and>
         (\<forall>k \<le> length nts.
            scheduleSteps (take k nts) s =
              (((advanceStep ^^ k) s)\<lparr>muteSteps := muteSteps s - int k\<rparr>, []) \<and>
            (transport_inv s \<longrightarrow>
               step (fst (scheduleSteps (take k nts) s)) = (step s + int k) mod 16 \<and>
               barCounter (fst (scheduleSteps (take k nts) s)) =
                 (barCounter s + (step s + int k) div 16) mod 64)) \<and>
         muteSteps (fst (scheduleSteps nts s)) = 0 \<and>
         (let sN = fst (scheduleSteps nts s) in
          snd (scheduleStep now time sN) =
            (if kickHit sN then [PlayKick time] else []) @
            (if hatHit sN then [PlayHihat time] else []) @
            (if snareHit sN then [PlaySnare time] else []) @
            (if kickHit sN \<or> snareHit sN then [QueueUiPulse time (kickHit sN) (snareHit sN)]
             else []))"
proof -
  have prefix: "scheduleSteps (take k nts) s =
      (((advanceStep ^^ k) s)\<lparr>muteSteps := muteSteps s - int k\<rparr>, [])" if "k \<le> length nts" for k
    using scheduleSteps_muted [of "take k nts" s] that assms by simp
  have pos: "step (fst (scheduleSteps (take k nts) s)) = (step s + int k) mod 16 \<and>
      barCounter (fst (scheduleSteps (take k nts) s)) =
        (barCounter s + (step s + int k) div 16) mod 64"
    if "k \<le> length nts" and "transport_inv s" for k
    using advanceSteps_position [OF that(2), of k] by (simp add: prefix [OF that(1)])
  have call: "(let sk = fst (scheduleSteps (take k nts) s) in
             scheduleStep (fst (nts ! k)) (snd (nts ! k)) sk =
               (sk\<lparr>muteSteps := muteSteps sk - 1,
                    step := (if step sk + 1 \<ge> 16 then 0 else step sk + 1),
                    barCounter := (if step sk + 1 \<ge> 16 then (barCounter sk + 1) smod 64
                                   else barCounter sk)\<rparr>, []) \<and>
             scheduleSteps (take (Suc k) nts) s =
               scheduleStep (fst (nts ! k)) (snd (nts ! k)) sk)" if "k < length nts" for k
  proof -
    let ?sk = "fst (scheduleSteps (take k nts) s)"
    have sk: "?sk = ((advanceStep ^^ k) s)\<lparr>muteSteps := muteSteps s - int k\<rparr>"
      using prefix [of k] that by simp
    have m: "muteSteps ?sk = muteSteps s - int k" by (simp add: sk)
    have "muteSteps ?sk > 0" using that assms by (simp add: m)
    then have one: "scheduleStep (fst (nts ! k)) (snd (nts ! k)) ?sk =
        (advanceStep (?sk\<lparr>muteSteps := muteSteps ?sk - 1\<rparr>), [])"
      by (rule scheduleStep_muted)
    have expl: "advanceStep (?sk\<lparr>muteSteps := muteSteps ?sk - 1\<rparr>) =
        ?sk\<lparr>muteSteps := muteSteps ?sk - 1,
             step := (if step ?sk + 1 \<ge> 16 then 0 else step ?sk + 1),
             barCounter := (if step ?sk + 1 \<ge> 16 then (barCounter ?sk + 1) smod 64
                            else barCounter ?sk)\<rparr>"
      using advanceStep_explicit [of "?sk\<lparr>muteSteps := muteSteps ?sk - 1\<rparr>"] by simp
    have "scheduleSteps (take (Suc k) nts) s =
        (((advanceStep ^^ Suc k) s)\<lparr>muteSteps := muteSteps s - int (Suc k)\<rparr>, [])"
      using prefix [of "Suc k"] that by simp
    also have "((advanceStep ^^ Suc k) s)\<lparr>muteSteps := muteSteps s - int (Suc k)\<rparr> =
        advanceStep (?sk\<lparr>muteSteps := muteSteps ?sk - 1\<rparr>)"
      by (simp add: sk advanceStep_muteSteps)
    finally have two: "scheduleSteps (take (Suc k) nts) s =
        scheduleStep (fst (nts ! k)) (snd (nts ! k)) ?sk"
      by (simp only: one)
    show ?thesis
      unfolding Let_def using one two by (simp only: expl simp_thms)
  qed
  have whole: "scheduleSteps nts s = (((advanceStep ^^ length nts) s)\<lparr>muteSteps := 0\<rparr>, [])"
    using prefix [of "length nts"] assms by simp
  have zero: "muteSteps (fst (scheduleSteps nts s)) = 0"
    by (simp add: whole)
  then have "\<not> muteSteps (fst (scheduleSteps nts s)) > 0" by simp
  from scheduleStep_unmuted_events [OF this, of now time]
  have next_call: "(let sN = fst (scheduleSteps nts s) in
          snd (scheduleStep now time sN) =
            (if kickHit sN then [PlayKick time] else []) @
            (if hatHit sN then [PlayHihat time] else []) @
            (if snareHit sN then [PlaySnare time] else []) @
            (if kickHit sN \<or> snareHit sN then [QueueUiPulse time (kickHit sN) (snareHit sN)]
             else []))"
    by (simp only: Let_def)
  show ?thesis
    using prefix pos call zero next_call by (intro conjI allI impI) blast+
qed

theorem C3_mute_window_witness:
  "muteSteps mutedState = int (length [(0 :: real, 1/8 :: real), (0, 1/4), (0, 3/8), (0, 1/2)]) \<and>
   transport_inv mutedState \<and> step mutedState = 12 \<and> barCounter mutedState = 63 \<and>
   snd (scheduleSteps (take 1 [(0, 1/8), (0, 1/4), (0, 3/8), (0, 1/2)]) mutedState) = [] \<and>
   muteSteps (fst (scheduleSteps (take 1 [(0, 1/8), (0, 1/4), (0, 3/8), (0, 1/2)]) mutedState)) = 3 \<and>
   step (fst (scheduleSteps (take 1 [(0, 1/8), (0, 1/4), (0, 3/8), (0, 1/2)]) mutedState)) = 13 \<and>
   barCounter (fst (scheduleSteps (take 1 [(0, 1/8), (0, 1/4), (0, 3/8), (0, 1/2)]) mutedState)) = 63 \<and>
   step (fst (scheduleSteps (take 3 [(0, 1/8), (0, 1/4), (0, 3/8), (0, 1/2)]) mutedState)) = 15 \<and>
   barCounter (fst (scheduleSteps (take 3 [(0, 1/8), (0, 1/4), (0, 3/8), (0, 1/2)]) mutedState)) = 63 \<and>
   snd (scheduleSteps [(0, 1/8), (0, 1/4), (0, 3/8), (0, 1/2)] mutedState) = [] \<and>
   muteSteps (fst (scheduleSteps [(0, 1/8), (0, 1/4), (0, 3/8), (0, 1/2)] mutedState)) = 0 \<and>
   step (fst (scheduleSteps [(0, 1/8), (0, 1/4), (0, 3/8), (0, 1/2)] mutedState)) = 0 \<and>
   barCounter (fst (scheduleSteps [(0, 1/8), (0, 1/4), (0, 3/8), (0, 1/2)] mutedState)) = 0 \<and>
   snd (scheduleStep 0 (5/8)
          (fst (scheduleSteps [(0, 1/8), (0, 1/4), (0, 3/8), (0, 1/2)] mutedState))) =
     [PlayKick (5/8), PlayHihat (5/8), QueueUiPulse (5/8) True False]"
proof -
  let ?nts = "[(0 :: real, 1/8 :: real), (0, 1/4), (0, 3/8), (0, 1/2)]"
  let ?after = "\<lambda>k. scheduleSteps (take k ?nts) mutedState"
  have m: "muteSteps mutedState = int (length ?nts)"
    by (simp add: mutedState_def midGame_def initialState_def)
  have f: "step mutedState = 12" "barCounter mutedState = 63" "muteSteps mutedState = 4"
    "drumLevel mutedState = 1" "bgmStage mutedState = 2"
    by (simp_all add: mutedState_def midGame_def initialState_def)
  have ti: "transport_inv mutedState"
    by (simp add: transport_inv_def f)
  note th = C3_mute_window [OF m, of 0 "5/8"]
  note pre = th [THEN conjunct2, THEN conjunct1, rule_format]
  have len: "1 \<le> length ?nts" "3 \<le> length ?nts" "4 \<le> length ?nts" by simp_all
  note run1 = pre [OF len(1), THEN conjunct1]
  note pos1 = pre [OF len(1), THEN conjunct2, rule_format, OF ti]
  note pos3 = pre [OF len(2), THEN conjunct2, rule_format, OF ti]
  note run4 = pre [OF len(3), THEN conjunct1]
  note pos4 = pre [OF len(3), THEN conjunct2, rule_format, OF ti]
  have k1: "snd (?after 1) = []" "muteSteps (fst (?after 1)) = 3"
    by (simp_all only: run1 fst_conv snd_conv) (simp_all add: f)
  have p1: "step (fst (?after 1)) = 13" "barCounter (fst (?after 1)) = 63"
    using pos1 by (simp_all add: f)
  have k3: "step (fst (?after 3)) = 15" "barCounter (fst (?after 3)) = 63"
    using pos3 by (simp_all add: f)
  have all: "?after 4 = scheduleSteps ?nts mutedState" by simp
  have k4: "snd (?after 4) = []" "muteSteps (fst (?after 4)) = 0"
    by (simp_all only: run4 fst_conv snd_conv) (simp_all add: f)
  have p4: "step (fst (?after 4)) = 0" "barCounter (fst (?after 4)) = 0"
    using pos4 by (simp_all add: f)
  let ?sN = "fst (scheduleSteps ?nts mutedState)"
  have sN: "step ?sN = 0" "barCounter ?sN = 0" "snd (scheduleSteps ?nts mutedState) = []"
      "muteSteps ?sN = 0"
    using k4 p4 unfolding all by simp_all
  have "?sN = ((advanceStep ^^ length ?nts) mutedState)\<lparr>muteSteps := muteSteps mutedState - int (length ?nts)\<rparr>"
    using pre [of "length ?nts"] by simp
  then have lv: "drumLevel ?sN = 1" "bgmStage ?sN = 2"
    by (simp_all add: advanceStep_def Let_def f)
  have hits: "kickHit ?sN" "hatHit ?sN" "\<not> snareHit ?sN"
    by (simp_all only: kickHit_def hatHit_def snareHit_def sN lv) (simp_all add: smod_nonneg)
  have ev: "snd (scheduleStep 0 (5/8) ?sN) =
     [PlayKick (5/8), PlayHihat (5/8), QueueUiPulse (5/8) True False]"
    using th [THEN conjunct2, THEN conjunct2, THEN conjunct2]
    by (simp only: Let_def hits simp_thms if_True if_False append_Cons append_Nil)
  show ?thesis
    using m ti f(1,2) k1 p1 k3 sN ev by (simp only: simp_thms)
qed

subsection \<open>Pulse timer\<close>

lemma pulse_timer_inv_cong:
  assumes "pulseTimeouts t = pulseTimeouts s" and "uiPulseTimer t = uiPulseTimer s"
  shows "pulse_timer_inv t = pulse_timer_inv s"
  by (simp add: pulse_timer_inv_def assms)

lemma filter_handle: "map fst xs = [h] \<Longrightarrow> filter (\<lambda>p. fst p \<noteq> h) xs = []"
  by (cases xs) auto

lemma pulse_timer_inv_queueUiPulse:
  "pulse_timer_inv s \<Longrightarrow> pulse_timer_inv (fst (queueUiPulse now time hits s))"
  by (auto simp add: pulse_timer_inv_def queueUiPulse_def Let_def)

lemma pulse_timer_inv_advanceStep: "pulse_timer_inv (advanceStep s) = pulse_timer_inv s"
  by (rule pulse_timer_inv_cong) (simp_all add: advanceStep_def Let_def)

lemma pulse_timer_inv_muteSteps: "pulse_timer_inv (s\<lparr>muteSteps := m\<rparr>) = pulse_timer_inv s"
  by (simp add: pulse_timer_inv_def)

lemma pulse_timer_inv_scheduleStep:
  "pulse_timer_inv s \<Longrightarrow> pulse_timer_inv (fst (scheduleStep now time s))"
  by (simp add: scheduleStep_def Let_def split_beta pulse_timer_inv_advanceStep
      pulse_timer_inv_queueUiPulse pulse_timer_inv_muteSteps)

lemma pulse_timer_inv_stop: "pulse_timer_inv s \<Longrightarrow> pulse_timer_inv (fst (stop s))"
  by (auto simp add: pulse_timer_inv_def stop_def Let_def filter_handle split: option.splits)

lemma pulse_timer_inv_start: "pulse_timer_inv (fst (start s)) = pulse_timer_inv s"
  by (rule pulse_timer_inv_cong) (simp_all add: start_def)

lemma pulse_timer_inv_firePulseTimeout:
  assumes "pulse_timer_inv s"
  shows "pulse_timer_inv (fst (firePulseTimeout h s))"
proof (cases "h \<in> fst ` set (pulseTimeouts s)")
  case False
  then show ?thesis using assms by (simp add: firePulseTimeout_def)
next
  case True
  then have "h \<in> set (map fst (pulseTimeouts s))" by simp
  then have "map fst (pulseTimeouts s) = [h]"
    using assms by (auto simp add: pulse_timer_inv_def split: option.splits)
  then have "filter (\<lambda>p. fst p \<noteq> h) (pulseTimeouts s) = []"
    by (rule filter_handle)
  then show ?thesis
    using True by (simp add: firePulseTimeout_def pulseCallback_def Let_def pulse_timer_inv_def)
qed

lemma pulse_timer_inv_newProblem: "pulse_timer_inv (fst (newProblem rs s)) = pulse_timer_inv s"
  by (rule pulse_timer_inv_cong) (simp_all add: newProblem_def Let_def)

lemma pulse_timer_inv_resetProgression:
  "pulse_timer_inv (fst (resetProgression s)) = pulse_timer_inv s"
  by (rule pulse_timer_inv_cong) (simp_all add: resetProgression_def resetTransport_def Let_def)

lemma pulse_timer_inv_playWrongFx: "pulse_timer_inv (fst (playWrongFx s)) = pulse_timer_inv s"
  by (rule pulse_timer_inv_cong) (simp_all add: playWrongFx_def Let_def)

lemma pulse_timer_inv_setBgmStage:
  "pulse_timer_inv (fst (setBgmStageFromStageCorrect s)) = pulse_timer_inv s"
  by (rule pulse_timer_inv_cong)
     (simp_all add: setBgmStageFromStageCorrect_def resetTransport_def Let_def)

lemma pulse_timer_inv_stageClear: "pulse_timer_inv (fst (stageClear s)) = pulse_timer_inv s"
  by (rule pulse_timer_inv_cong) (simp_all add: stageClear_def resetTransport_def Let_def)

lemma pulse_timer_inv_updateOnCorrect:
  "pulse_timer_inv (fst (updateOnCorrect s)) = pulse_timer_inv s"
  by (simp add: updateOnCorrect_def Let_def split_beta pulse_timer_inv_stageClear
      pulse_timer_inv_setBgmStage)
     (simp add: pulse_timer_inv_def)

lemma pulse_timer_inv_checkAnswer: "pulse_timer_inv (fst (checkAnswer raw s)) = pulse_timer_inv s"
  by (simp add: checkAnswer_def split_beta Let_def pulse_timer_inv_updateOnCorrect
      pulse_timer_inv_playWrongFx pulse_timer_inv_resetProgression split: parsed.split)

lemma pulse_timer_inv_resetAll: "pulse_timer_inv (fst (resetAll rs s)) = pulse_timer_inv s"
  by (simp add: resetAll_def split_beta pulse_timer_inv_newProblem pulse_timer_inv_resetProgression)

lemma pulse_timer_inv_toggleSound: "pulse_timer_inv (fst (toggleSound s)) = pulse_timer_inv s"
  by (rule pulse_timer_inv_cong) (simp_all add: toggleSound_def Let_def)

lemma pulse_timer_inv_toggleDrum: "pulse_timer_inv s \<Longrightarrow> pulse_timer_inv (fst (toggleDrum s))"
  by (simp add: toggleDrum_def pulse_timer_inv_start pulse_timer_inv_stop)

lemma pulse_timer_inv_initApp: "pulse_timer_inv (fst (initApp rs))"
  by (simp add: initApp_def split_beta Let_def pulse_timer_inv_newProblem)
     (simp add: pulse_timer_inv_def initialState_def)

lemma reachable_pulse_timer_inv: "reachable s \<Longrightarrow> pulse_timer_inv s"
proof (induction rule: reachable.induct)
  case (init rs)
  show ?case by (rule pulse_timer_inv_initApp)
next
  case (check s raw)
  then show ?case by (simp add: pulse_timer_inv_checkAnswer)
next
  case (next_problem s rs)
  then show ?case by (simp add: pulse_timer_inv_newProblem)
next
  case (reset s rs)
  then show ?case by (simp add: pulse_timer_inv_resetAll)
next
  case (sound s)
  then show ?case by (simp add: pulse_timer_inv_toggleSound)
next
  case (drum s)
  then show ?case by (simp add: pulse_timer_inv_toggleDrum)
next
  case (tick s now time)
  then show ?case by (simp add: pulse_timer_inv_scheduleStep)
next
  case (pulse s h)
  then show ?case by (simp add: pulse_timer_inv_firePulseTimeout)
qed

lemma pulse_timer_inv_length:
  assumes "pulse_timer_inv s"
  shows "length (pulseTimeouts s) \<le> 1"
proof -
  have "length (map fst (pulseTimeouts s)) \<le> 1"
    using assms by (simp add: pulse_timer_inv_def split: option.split)
  then show ?thesis by simp
qed

lemma scheduleStep_pending_merge:
  assumes "\<not> muteSteps s > 0" and "uiPulseTimer s \<noteq> None" and "kickHit s \<or> snareHit s"
  shows "pulseTimeouts (fst (scheduleStep now time s)) = pulseTimeouts s"
    and "uiPulseTimer (fst (scheduleStep now time s)) = uiPulseTimer s"
    and "uiPulseHits (fst (scheduleStep now time s)) =
           (fst (uiPulseHits s) \<or> kickHit s, snd (uiPulseHits s) \<or> snareHit s)"
  using assms
  by (auto simp add: scheduleStep_def Let_def split_beta queueUiPulse_def advanceStep_def)

lemma scheduleStep_idle_sets_timer:
  assumes "\<not> muteSteps s > 0" and "uiPulseTimer s = None" and "kickHit s \<or> snareHit s"
  shows "pulseTimeouts (fst (scheduleStep now time s)) =
           pulseTimeouts s @ [(nextHandle s, max 0 ((time - now) * 1000))]"
    and "uiPulseTimer (fst (scheduleStep now time s)) = Some (nextHandle s)"
    and "uiPulseHits (fst (scheduleStep now time s)) =
           (fst (uiPulseHits s) \<or> kickHit s, snd (uiPulseHits s) \<or> snareHit s)"
  using assms
  by (auto simp add: scheduleStep_def Let_def split_beta queueUiPulse_def advanceStep_def)

lemma scheduleStep_no_pulse:
  assumes "\<not> muteSteps s > 0" and "\<not> (kickHit s \<or> snareHit s)"
  shows "pulseTimeouts (fst (scheduleStep now time s)) = pulseTimeouts s"
    and "uiPulseTimer (fst (scheduleStep now time s)) = uiPulseTimer s"
    and "uiPulseHits (fst (scheduleStep now time s)) = uiPulseHits s"
  using assms
  by (auto simp add: scheduleStep_def Let_def split_beta advanceStep_def)

lemma firePulseTimeout_delivers:
  assumes "pulse_timer_inv s" and "uiPulseTimer s = Some h" and "running s"
  shows "firePulseTimeout h s =
           (s\<lparr>pulseTimeouts := [], uiPulseTimer := None, uiPulseHits := (False, False)\<rparr>,
            [UiPulse (fst (uiPulseHits s)) (snd (uiPulseHits s))])"
proof -
  have m: "map fst (pulseTimeouts s) = [h]"
    using assms(1,2) by (simp add: pulse_timer_inv_def)
  then have "h \<in> set (map fst (pulseTimeouts s))" by simp
  then have mem: "h \<in> fst ` set (pulseTimeouts s)" by simp
  have "filter (\<lambda>p. fst p \<noteq> h) (pulseTimeouts s) = []"
    using m by (rule filter_handle)
  then show ?thesis
    using mem assms(3) by (simp add: firePulseTimeout_def pulseCallback_def Let_def)
qed

text \<open>
  C8. The engine's invariant is that the pending pulse timeouts are exactly the one whose
  handle it holds, if any, so at most one is pending. It holds in every reachable state,
  and from any state where it holds it is kept by \<open>scheduleStep\<close>, by the pulse callback, by
  \<open>start\<close> and by \<open>stop\<close>; the callback of the pending timeout, with the sequencer running,
  delivers the stored hit flags once and clears them.
  On every call of \<open>scheduleStep\<close> that is not muted, from any state: the events hold one
  pulse request, carrying both hit flags, when kick or snare is played, and none
  otherwise, so never more than one however many voices hit; the hit flags of the step
  are or-ed into the stored ones; with a timeout pending the request adds none and the
  pending one stays; with none pending one timeout is set; and a step without kick and
  snare leaves the pulse state alone.
\<close>

theorem C8_one_pulse_per_step_one_timer:
  "(reachable r \<longrightarrow> pulse_timer_inv r \<and> length (pulseTimeouts r) \<le> 1) \<and>
   (pulse_timer_inv s \<longrightarrow>
      length (pulseTimeouts s) \<le> 1 \<and>
      (uiPulseTimer s = None \<longleftrightarrow> pulseTimeouts s = []) \<and>
      pulse_timer_inv (fst (scheduleStep now time s)) \<and>
      pulse_timer_inv (fst (firePulseTimeout h s)) \<and>
      pulse_timer_inv (fst (start s)) \<and>
      pulse_timer_inv (fst (stop s)) \<and>
      (uiPulseTimer s = Some h \<and> running s \<longrightarrow>
         firePulseTimeout h s =
           (s\<lparr>pulseTimeouts := [], uiPulseTimer := None, uiPulseHits := (False, False)\<rparr>,
            [UiPulse (fst (uiPulseHits s)) (snd (uiPulseHits s))]))) \<and>
   (\<not> muteSteps s > 0 \<longrightarrow>
      filter isQueueUiPulse (snd (scheduleStep now time s)) =
        (if kickHit s \<or> snareHit s then [QueueUiPulse time (kickHit s) (snareHit s)] else []) \<and>
      (PlayKick time \<in> set (snd (scheduleStep now time s)) \<longleftrightarrow> kickHit s) \<and>
      (PlaySnare time \<in> set (snd (scheduleStep now time s)) \<longleftrightarrow> snareHit s) \<and>
      (filter isQueueUiPulse (snd (scheduleStep now time s)) \<noteq> [] \<longleftrightarrow>
         PlayKick time \<in> set (snd (scheduleStep now time s)) \<or>
         PlaySnare time \<in> set (snd (scheduleStep now time s))) \<and>
      length (filter isQueueUiPulse (snd (scheduleStep now time s))) \<le> 1 \<and>
      (kickHit s \<or> snareHit s \<longrightarrow>
         uiPulseHits (fst (scheduleStep now time s)) =
           (fst (uiPulseHits s) \<or> kickHit s, snd (uiPulseHits s) \<or> snareHit s)) \<and>
      (uiPulseTimer s \<noteq> None \<and> (kickHit s \<or> snareHit s) \<longrightarrow>
         pulseTimeouts (fst (scheduleStep now time s)) = pulseTimeouts s \<and>
         uiPulseTimer (fst (scheduleStep now time s)) = uiPulseTimer s) \<and>
      (uiPulseTimer s = None \<and> (kickHit s \<or> snareHit s) \<longrightarrow>
         pulseTimeouts (fst (scheduleStep now time s)) =
           pulseTimeouts s @ [(nextHandle s, max 0 ((time - now) * 1000))] \<and>
         uiPulseTimer (fst (scheduleStep now time s)) = Some (nextHandle s)) \<and>
      (\<not> (kickHit s \<or> snareHit s) \<longrightarrow>
         pulseTimeouts (fst (scheduleStep now time s)) = pulseTimeouts s \<and>
         uiPulseTimer (fst (scheduleStep now time s)) = uiPulseTimer s \<and>
         uiPulseHits (fst (scheduleStep now time s)) = uiPulseHits s))"
proof -
  have A: "reachable r \<longrightarrow> pulse_timer_inv r \<and> length (pulseTimeouts r) \<le> 1"
    using reachable_pulse_timer_inv [of r] pulse_timer_inv_length [of r] by blast
  have B: "length (pulseTimeouts s) \<le> 1 \<and>
      (uiPulseTimer s = None \<longleftrightarrow> pulseTimeouts s = []) \<and>
      pulse_timer_inv (fst (scheduleStep now time s)) \<and>
      pulse_timer_inv (fst (firePulseTimeout h s)) \<and>
      pulse_timer_inv (fst (start s)) \<and>
      pulse_timer_inv (fst (stop s)) \<and>
      (uiPulseTimer s = Some h \<and> running s \<longrightarrow>
         firePulseTimeout h s =
           (s\<lparr>pulseTimeouts := [], uiPulseTimer := None, uiPulseHits := (False, False)\<rparr>,
            [UiPulse (fst (uiPulseHits s)) (snd (uiPulseHits s))]))" if inv: "pulse_timer_inv s"
  proof -
    have idle: "uiPulseTimer s = None \<longleftrightarrow> pulseTimeouts s = []"
      using inv by (auto simp add: pulse_timer_inv_def split: option.splits)
    show ?thesis
      using inv idle pulse_timer_inv_length [OF inv] pulse_timer_inv_scheduleStep [OF inv, of now time]
        pulse_timer_inv_firePulseTimeout [OF inv, of h] pulse_timer_inv_stop [OF inv]
        firePulseTimeout_delivers [OF inv, of h]
      by (simp add: pulse_timer_inv_start)
  qed
  have C: "filter isQueueUiPulse (snd (scheduleStep now time s)) =
        (if kickHit s \<or> snareHit s then [QueueUiPulse time (kickHit s) (snareHit s)] else []) \<and>
      (PlayKick time \<in> set (snd (scheduleStep now time s)) \<longleftrightarrow> kickHit s) \<and>
      (PlaySnare time \<in> set (snd (scheduleStep now time s)) \<longleftrightarrow> snareHit s)"
    if "\<not> muteSteps s > 0"
    using scheduleStep_unmuted_events [OF that, of now time] by simp
  have D: "\<not> muteSteps s > 0 \<longrightarrow>
      (kickHit s \<or> snareHit s \<longrightarrow>
         uiPulseHits (fst (scheduleStep now time s)) =
           (fst (uiPulseHits s) \<or> kickHit s, snd (uiPulseHits s) \<or> snareHit s)) \<and>
      (uiPulseTimer s \<noteq> None \<and> (kickHit s \<or> snareHit s) \<longrightarrow>
         pulseTimeouts (fst (scheduleStep now time s)) = pulseTimeouts s \<and>
         uiPulseTimer (fst (scheduleStep now time s)) = uiPulseTimer s) \<and>
      (uiPulseTimer s = None \<and> (kickHit s \<or> snareHit s) \<longrightarrow>
         pulseTimeouts (fst (scheduleStep now time s)) =
           pulseTimeouts s @ [(nextHandle s, max 0 ((time - now) * 1000))] \<and>
         uiPulseTimer (fst (scheduleStep now time s)) = Some (nextHandle s)) \<and>
      (\<not> (kickHit s \<or> snareHit s) \<longrightarrow>
         pulseTimeouts (fst (scheduleStep now time s)) = pulseTimeouts s \<and>
         uiPulseTimer (fst (scheduleStep now time s)) = uiPulseTimer s \<and>
         uiPulseHits (fst (scheduleStep now time s)) = uiPulseHits s)"
    using scheduleStep_pending_merge [of s now time] scheduleStep_idle_sets_timer [of s now time]
      scheduleStep_no_pulse [of s now time]
    by (cases "uiPulseTimer s = None") simp_all
  show ?thesis
    using A B C D by simp
qed

lemma initApp_sconst_0: "fst (initApp (sconst 0)) = initialState"
  by (simp add: initApp_def newProblem_def buildProblem_def pickMode_def randInt_def Let_def
      initialState_def difficultyForStage_def computeDrumLevel_def computeBgmStage_def SETTINGS)

lemma pendingPulse_eq:
  "pendingPulse =
     initialState\<lparr>running := True, timerId := Some 1, nextHandle := 3, uiPulseTimer := Some 2,
       pulseTimeouts := [(2, 50)], uiPulseHits := (True, False), step := 4\<rparr>"
  by (simp add: pendingPulse_def initApp_sconst_0 toggleDrum_def start_def scheduleStep_def
      queueUiPulse_def advanceStep_def kickHit_def hatHit_def snareHit_def Let_def
      initialState_def SETTINGS smod_nonneg)

lemma running_scheduleStep: "running (fst (scheduleStep now time s)) = running s"
  by (simp add: scheduleStep_def advanceStep_def queueUiPulse_def Let_def split_beta)

lemma reachable_scheduleSteps:
  "reachable s \<Longrightarrow> running s \<Longrightarrow> reachable (fst (scheduleSteps nts s))"
proof (induction nts arbitrary: s)
  case Nil
  then show ?case by simp
next
  case (Cons nt nts)
  have "reachable (fst (scheduleStep (fst nt) (snd nt) s))"
    using Cons.prems by (rule reachable.tick)
  moreover have "running (fst (scheduleStep (fst nt) (snd nt) s))"
    using Cons.prems(2) by (simp add: running_scheduleStep)
  ultimately have "reachable (fst (scheduleSteps nts (fst (scheduleStep (fst nt) (snd nt) s))))"
    by (rule Cons.IH)
  then show ?case by (simp add: split_beta Let_def)
qed

lemma reachable_pendingPulse: "reachable pendingPulse"
  unfolding pendingPulse_def
proof (rule reachable_scheduleSteps)
  show "reachable (fst (toggleDrum (fst (initApp (sconst 0)))))"
    by (intro reachable.drum reachable.init)
  show "running (fst (toggleDrum (fst (initApp (sconst 0)))))"
    by (simp add: initApp_sconst_0 toggleDrum_def start_def initialState_def)
qed

theorem C8_one_pulse_per_step_one_timer_witness:
  "reachable pendingPulse \<and> pulseTimeouts pendingPulse = [(2, 50)] \<and>
   pulse_timer_inv pendingPulse \<and>
   pulse_timer_inv snareFill \<and> uiPulseTimer snareFill = Some 2 \<and>
   uiPulseHits snareFill = (True, False) \<and> snareHit snareFill \<and>
   snd (scheduleStep 0 (1/2) snareFill) =
     [PlayHihat (1/2), PlaySnare (1/2), QueueUiPulse (1/2) False True] \<and>
   uiPulseHits (fst (scheduleStep 0 (1/2) snareFill)) = (True, True) \<and>
   pulseTimeouts (fst (scheduleStep 0 (1/2) snareFill)) = [(2, 50)] \<and>
   uiPulseTimer (fst (scheduleStep 0 (1/2) snareFill)) = Some 2 \<and>
   firePulseTimeout 2 snareFill =
     (snareFill\<lparr>pulseTimeouts := [], uiPulseTimer := None, uiPulseHits := (False, False)\<rparr>,
      [UiPulse True False]) \<and>
   pulse_timer_inv backbeat \<and> kickHit backbeat \<and> snareHit backbeat \<and>
   snd (scheduleStep 0 (1/2) backbeat) =
     [PlayKick (1/2), PlayHihat (1/2), PlaySnare (1/2), QueueUiPulse (1/2) True True] \<and>
   pulseTimeouts (fst (scheduleStep 0 (1/2) backbeat)) = [(2, 500)] \<and>
   uiPulseTimer (fst (scheduleStep 0 (1/2) backbeat)) = Some 2 \<and>
   uiPulseHits (fst (scheduleStep 0 (1/2) backbeat)) = (True, True)"
proof -
  have sf: "\<not> muteSteps snareFill > 0" "uiPulseTimer snareFill = Some 2"
    "uiPulseHits snareFill = (True, False)" "pulseTimeouts snareFill = [(2, 50)]"
    "running snareFill" "\<not> kickHit snareFill" "hatHit snareFill" "snareHit snareFill"
    by (simp_all add: snareFill_def initialState_def kickHit_def hatHit_def snareHit_def
        smod_nonneg)
  have sfi: "pulse_timer_inv snareFill"
    by (simp add: pulse_timer_inv_def sf)
  have bb: "\<not> muteSteps backbeat > 0" "uiPulseTimer backbeat = None"
    "uiPulseHits backbeat = (False, False)" "pulseTimeouts backbeat = []" "nextHandle backbeat = 2"
    "kickHit backbeat" "hatHit backbeat" "snareHit backbeat"
    by (simp_all add: backbeat_def initialState_def kickHit_def hatHit_def snareHit_def
        smod_nonneg)
  have bbi: "pulse_timer_inv backbeat"
    by (simp add: pulse_timer_inv_def bb)
  have pp: "pulseTimeouts pendingPulse = [(2, 50)]"
    by (simp add: pendingPulse_eq)
  have e1: "snd (scheduleStep 0 (1/2) snareFill) =
      [PlayHihat (1/2), PlaySnare (1/2), QueueUiPulse (1/2) False True]"
    using scheduleStep_unmuted_events [OF sf(1), of 0 "1/2"] by (simp add: sf)
  have e2: "snd (scheduleStep 0 (1/2) backbeat) =
      [PlayKick (1/2), PlayHihat (1/2), PlaySnare (1/2), QueueUiPulse (1/2) True True]"
    using scheduleStep_unmuted_events [OF bb(1), of 0 "1/2"] by (simp add: bb)
  have one: "pulse_timer_inv pendingPulse \<and>
      uiPulseHits (fst (scheduleStep 0 (1/2) snareFill)) = (True, True) \<and>
      pulseTimeouts (fst (scheduleStep 0 (1/2) snareFill)) = [(2, 50)] \<and>
      uiPulseTimer (fst (scheduleStep 0 (1/2) snareFill)) = Some 2 \<and>
      firePulseTimeout 2 snareFill =
        (snareFill\<lparr>pulseTimeouts := [], uiPulseTimer := None, uiPulseHits := (False, False)\<rparr>,
         [UiPulse True False])"
    using C8_one_pulse_per_step_one_timer [of pendingPulse snareFill 0 "1/2" 2]
    by (simp add: reachable_pendingPulse sfi sf)
  have two: "pulseTimeouts (fst (scheduleStep 0 (1/2) backbeat)) = [(2, 500)] \<and>
      uiPulseTimer (fst (scheduleStep 0 (1/2) backbeat)) = Some 2 \<and>
      uiPulseHits (fst (scheduleStep 0 (1/2) backbeat)) = (True, True)"
    using C8_one_pulse_per_step_one_timer [of pendingPulse backbeat 0 "1/2" 2]
    by (simp add: bbi bb)
  show ?thesis
    using one two e1 e2 sfi bbi by (simp add: reachable_pendingPulse pp sf bb)
qed

subsection \<open>Progression invariant\<close>

lemma mod_20_succ:
  fixes c :: int
  assumes "(c + 1) mod 20 \<noteq> 0"
  shows "c mod 20 + 1 = (c + 1) mod 20"
proof -
  have e: "(c + 1) mod 20 = (c mod 20 + 1) mod 20"
    by (simp add: mod_add_left_eq)
  have r: "0 \<le> c mod 20" "c mod 20 < 20" by simp_all
  have "c mod 20 \<noteq> 19"
  proof
    assume "c mod 20 = 19"
    then have "(c + 1) mod 20 = 0" by (simp add: e)
    then show False using assms by simp
  qed
  then have "c mod 20 + 1 < 20" using r by linarith
  then have "(c mod 20 + 1) mod 20 = c mod 20 + 1"
    using r by simp
  then show ?thesis by (simp only: e)
qed

lemma progression_inv_cong:
  assumes "correctTotal t = correctTotal s" and "stageCorrect t = stageCorrect s"
    and "drumLevel t = drumLevel s" and "difficultyStage t = difficultyStage s"
    and "diff t = diff s"
  shows "progression_inv t = progression_inv s"
  by (simp add: progression_inv_def assms)

lemma progression_inv_updateOnCorrect:
  assumes "progression_inv s"
  shows "progression_inv (fst (updateOnCorrect s))"
proof -
  let ?c = "correctTotal s"
  have a: "0 \<le> ?c" "stageCorrect s = ?c mod 20"
      "0 \<le> difficultyStage s" "diff s = difficultyForStage (difficultyStage s)"
    using assms by (simp_all add: progression_inv_def)
  have sm: "(?c + 1) smod 20 = (?c + 1) mod 20"
    using a(1) by (simp add: smod_nonneg)
  show ?thesis
  proof (cases "(?c + 1) mod 20 = 0")
    case True
    then show ?thesis
      using a(1,3)
      by (simp add: progression_inv_def updateOnCorrect_fields updateOnCorrect_diff sm
          computeDrumLevel_def SETTINGS)
  next
    case False
    then have "?c mod 20 + 1 = (?c + 1) mod 20"
      by (rule mod_20_succ)
    then have sc: "stageCorrect s + 1 = (?c + 1) mod 20"
      by (simp only: a(2))
    show ?thesis
      using False a(1,3,4)
      by (simp add: progression_inv_def updateOnCorrect_fields updateOnCorrect_diff sm sc)
  qed
qed

lemma progression_inv_resetProgression: "progression_inv (fst (resetProgression s))"
  by (simp add: progression_inv_def resetProgression_state computeDrumLevel_def SETTINGS)

lemma progression_inv_newProblem: "progression_inv (fst (newProblem rs s)) = progression_inv s"
  by (rule progression_inv_cong) (simp_all add: newProblem_def Let_def)

lemma progression_inv_playWrongFx: "progression_inv (fst (playWrongFx s)) = progression_inv s"
  by (rule progression_inv_cong) (simp_all add: playWrongFx_def Let_def)

lemma progression_inv_checkAnswer:
  "progression_inv s \<Longrightarrow> progression_inv (fst (checkAnswer raw s))"
  by (simp add: checkAnswer_def split_beta Let_def progression_inv_updateOnCorrect
      progression_inv_playWrongFx progression_inv_resetProgression split: parsed.split)

lemma progression_inv_resetAll: "progression_inv (fst (resetAll rs s))"
  by (simp add: resetAll_def split_beta progression_inv_newProblem progression_inv_resetProgression)

lemma progression_inv_toggleSound: "progression_inv (fst (toggleSound s)) = progression_inv s"
  by (rule progression_inv_cong) (simp_all add: toggleSound_def Let_def)

lemma progression_inv_toggleDrum: "progression_inv (fst (toggleDrum s)) = progression_inv s"
  by (rule progression_inv_cong)
     (simp_all add: toggleDrum_def start_def stop_def Let_def split: option.split)

lemma progression_inv_advanceStep: "progression_inv (advanceStep s) = progression_inv s"
  by (rule progression_inv_cong) (simp_all add: advanceStep_def Let_def)

lemma progression_inv_queueUiPulse:
  "progression_inv (fst (queueUiPulse now time hits s)) = progression_inv s"
  by (rule progression_inv_cong) (simp_all add: queueUiPulse_def Let_def)

lemma progression_inv_muteSteps: "progression_inv (s\<lparr>muteSteps := m\<rparr>) = progression_inv s"
  by (simp add: progression_inv_def)

lemma progression_inv_scheduleStep:
  "progression_inv (fst (scheduleStep now time s)) = progression_inv s"
  by (simp add: scheduleStep_def Let_def split_beta progression_inv_advanceStep
      progression_inv_queueUiPulse progression_inv_muteSteps)

lemma progression_inv_firePulseTimeout:
  "progression_inv (fst (firePulseTimeout h s)) = progression_inv s"
  by (rule progression_inv_cong) (simp_all add: firePulseTimeout_def pulseCallback_def Let_def)

lemma progression_inv_initApp: "progression_inv (fst (initApp rs))"
  by (simp add: initApp_def split_beta Let_def progression_inv_newProblem)
     (simp add: progression_inv_def initialState_def computeDrumLevel_def SETTINGS)

lemma reachable_progression_inv: "reachable s \<Longrightarrow> progression_inv s"
proof (induction rule: reachable.induct)
  case (init rs)
  show ?case by (rule progression_inv_initApp)
next
  case (check s raw)
  then show ?case by (simp add: progression_inv_checkAnswer)
next
  case (next_problem s rs)
  then show ?case by (simp add: progression_inv_newProblem)
next
  case (reset s rs)
  show ?case by (rule progression_inv_resetAll)
next
  case (sound s)
  then show ?case by (simp add: progression_inv_toggleSound)
next
  case (drum s)
  then show ?case by (simp add: progression_inv_toggleDrum)
next
  case (tick s now time)
  then show ?case by (simp add: progression_inv_scheduleStep)
next
  case (pulse s h)
  then show ?case by (simp add: progression_inv_firePulseTimeout)
qed

lemma reachable_profile: "reachable s \<Longrightarrow> diff s = difficultyForStage (difficultyStage s)"
  using reachable_progression_inv [of s] by (simp add: progression_inv_def)

text \<open>
  C10. In every reachable state, that is after the initialisation and after every
  handler or callback (a checked answer with its stage clear, a wrong answer, the reset
  button, the toggles, a scheduled step, a pulse callback), \<open>stageCorrect\<close> is
  \<open>correctTotal mod 20\<close>. So \<open>stageCorrect\<close> is at most 19, the beat level is 0 or 1, and
  no step of such a state hits the snare.
\<close>

theorem C10_stageCorrect_is_total_mod_20:
  assumes "reachable s"
  shows "stageCorrect s = correctTotal s mod 20 \<and> 0 \<le> stageCorrect s \<and> stageCorrect s \<le> 19 \<and>
         0 \<le> drumLevel s \<and> drumLevel s \<le> 1 \<and> \<not> snareHit s"
proof -
  have inv: "progression_inv s" using assms by (rule reachable_progression_inv)
  then have sc: "stageCorrect s = correctTotal s mod 20"
    and dl: "drumLevel s = computeDrumLevel (stageCorrect s)"
    by (simp_all add: progression_inv_def)
  have "0 \<le> correctTotal s mod 20" "correctTotal s mod 20 < 20" by simp_all
  then have rng: "0 \<le> stageCorrect s" "stageCorrect s \<le> 19" using sc by simp_all
  then have "0 \<le> drumLevel s \<and> drumLevel s \<le> 1"
    by (simp add: dl computeDrumLevel_def SETTINGS)
  then show ?thesis using sc rng by (simp add: snareHit_def)
qed

lemma updateOnCorrect_currentAnswer: "currentAnswer (fst (updateOnCorrect s)) = currentAnswer s"
  by (simp add: updateOnCorrect_def Let_def split_beta setBgmStageFromStageCorrect_def
      stageClear_def resetTransport_def)

lemma parseAnswer_0: "parseAnswer [0x30] = Num 0"
  by (simp add: parseAnswer_def trim_def isWhiteSpace_def isDigit_def toNumber_def decimalValue_def)

lemma checkAnswer_0:
  "currentAnswer s = 0 \<Longrightarrow> fst (checkAnswer [0x30] s) = fst (updateOnCorrect s)"
  by (simp add: checkAnswer_def parseAnswer_0 split_beta)

lemma answers_afterCorrect:
  "currentAnswer s = 0 \<Longrightarrow>
   ((\<lambda>s. fst (checkAnswer [0x30] s)) ^^ n) s = afterCorrect n s \<and>
   currentAnswer (afterCorrect n s) = 0"
  by (induction n)
     (simp_all add: afterCorrect_0 afterCorrect_Suc checkAnswer_0 updateOnCorrect_currentAnswer)

lemma reachable_answers: "reachable s \<Longrightarrow> reachable (((\<lambda>s. fst (checkAnswer raw s)) ^^ n) s)"
  by (induction n) (simp_all add: reachable.check)

lemma reachable_twentyCorrect: "reachable twentyCorrect"
  unfolding twentyCorrect_def by (intro reachable_answers reachable.init)

lemma twentyCorrect_eq: "twentyCorrect = afterCorrect 20 initialState"
  using answers_afterCorrect [of initialState 20]
  by (simp add: twentyCorrect_def initApp_sconst_0) (simp add: initialState_def)

theorem C10_stageCorrect_is_total_mod_20_witness:
  "reachable twentyCorrect \<and> correctTotal twentyCorrect = 20 \<and> stageCorrect twentyCorrect = 0 \<and>
   drumLevel twentyCorrect = 0 \<and> difficultyStage twentyCorrect = 1 \<and> \<not> snareHit twentyCorrect"
  using C10_stageCorrect_is_total_mod_20 [OF reachable_twentyCorrect]
  by (simp add: reachable_twentyCorrect) (simp add: twentyCorrect_eq afterCorrect_20)

end
